theory Spec2Isabelle
  imports Complex_Main
begin

section \<open>JavaScript values\<close>

text \<open>
  A JavaScript number is an IEEE double. The finite ones are modelled by the real number
  they denote (arithmetic is exact in the model; it is exact in the program for integers
  below \<open>2 ^ 53\<close>), and the three non-finite values are kept apart, since the guards
  of the source treat them differently.
\<close>

datatype jsnum = Fin real | PInf | NInf | NaN

text \<open>
  An argument as the source's \<open>typeof\<close> guards see it: a number, a string, or a value
  of any other type (\<open>undefined\<close>, \<open>null\<close>, a boolean, an object).
\<close>

datatype jsval = JNum jsnum | JStr string | JOther

text \<open>What a \<open>throw\<close> of the source raises: \<open>new Error(message)\<close>, or the
  \<open>RangeError\<close> of a built-in (\<open>toFixed\<close>, the \<open>Intl\<close> constructors).\<close>

datatype error = Error string | RangeError

subsection \<open>Number operations\<close>

text \<open>The relational operators on numbers: every comparison with \<open>NaN\<close> is false.\<close>

fun js_lt :: "jsnum \<Rightarrow> jsnum \<Rightarrow> bool" where
  "js_lt NaN b = False"
| "js_lt a NaN = False"
| "js_lt (Fin a) (Fin b) = (a < b)"
| "js_lt (Fin a) PInf = True"
| "js_lt (Fin a) NInf = False"
| "js_lt PInf b = False"
| "js_lt NInf NInf = False"
| "js_lt NInf b = True"

definition js_gt :: "jsnum \<Rightarrow> jsnum \<Rightarrow> bool" where
  "js_gt a b = js_lt b a"

definition js_ge :: "jsnum \<Rightarrow> jsnum \<Rightarrow> bool" where
  "js_ge a b = (a \<noteq> NaN \<and> b \<noteq> NaN \<and> \<not> js_lt a b)"

text \<open>\<open>isNaN\<close> on a number.\<close>

definition js_isNaN :: "jsnum \<Rightarrow> bool" where
  "js_isNaN x = (x = NaN)"

fun js_abs :: "jsnum \<Rightarrow> jsnum" where
  "js_abs (Fin r) = Fin \<bar>r\<bar>"
| "js_abs PInf = PInf"
| "js_abs NInf = PInf"
| "js_abs NaN = NaN"

fun js_floor :: "jsnum \<Rightarrow> jsnum" where
  "js_floor (Fin r) = Fin (of_int \<lfloor>r\<rfloor>)"
| "js_floor x = x"

text \<open>
  \<open>x / c\<close> and \<open>x % c\<close> for a finite literal \<open>c > 0\<close>, the only divisors the source
  uses. The remainder has the sign of the dividend; the remainder of an infinite value
  is \<open>NaN\<close>.
\<close>

fun js_div :: "jsnum \<Rightarrow> real \<Rightarrow> jsnum" where
  "js_div (Fin r) c = Fin (r / c)"
| "js_div x c = x"

fun js_rem :: "jsnum \<Rightarrow> real \<Rightarrow> jsnum" where
  "js_rem (Fin r) c =
     Fin (r - c * of_int (if 0 \<le> r then \<lfloor>r / c\<rfloor> else \<lceil>r / c\<rceil>))"
| "js_rem x c = NaN"

subsection \<open>Numbers as strings\<close>

definition digit_char :: "nat \<Rightarrow> char" where
  "digit_char n = ''0123456789'' ! (n mod 10)"

fun dec_digits :: "nat \<Rightarrow> string" where
  "dec_digits n =
     (if n < 10 then [digit_char n] else dec_digits (n div 10) @ [digit_char (n mod 10)])"

declare dec_digits.simps [simp del]

definition int_str :: "int \<Rightarrow> string" where
  "int_str i = (if i < 0 then ''-'' @ dec_digits (nat (- i)) else dec_digits (nat i))"

text \<open>
  What the JavaScript engine supplies and the model leaves open: the shortest
  round-trip digits of a finite number that is not an integer below \<open>2 ^ 53\<close>
  (\<open>shortest_str\<close>), the digits of \<open>toFixed\<close> on a finite number (\<open>fixed_str\<close>), and
  \<open>parseFloat\<close> on a string that does not start with an infinity (\<open>parse_float\<close>).
  Every theorem below holds for all engines.
\<close>

record js_engine =
  shortest_str :: "real \<Rightarrow> string"
  fixed_str :: "real \<Rightarrow> nat \<Rightarrow> string"
  parse_float :: "string \<Rightarrow> jsnum"

text \<open>\<open>Number.prototype.toString\<close>, also the conversion of a number in a template
  literal or a string concatenation. An integer below \<open>2 ^ 53\<close> prints its decimal
  digits; above, a double prints the shortest digits that read back as it, which the
  engine supplies.\<close>

fun js_toString :: "js_engine \<Rightarrow> jsnum \<Rightarrow> string" where
  "js_toString eng NaN = ''NaN''"
| "js_toString eng PInf = ''Infinity''"
| "js_toString eng NInf = ''-Infinity''"
| "js_toString eng (Fin r) =
     (if of_int \<lfloor>r\<rfloor> = r \<and> \<bar>r\<bar> < 2 ^ 53 then int_str \<lfloor>r\<rfloor> else shortest_str eng r)"

text \<open>\<open>Number.prototype.toFixed(fractionDigits)\<close>: the range of \<open>fractionDigits\<close> is
  checked first, then a non-finite number prints as \<open>toString\<close> does.\<close>

definition js_toFixed :: "js_engine \<Rightarrow> jsnum \<Rightarrow> int \<Rightarrow> error + string" where
  "js_toFixed eng x fractionDigits =
     (if fractionDigits < 0 \<or> 100 < fractionDigits then Inl RangeError
      else (case x of Fin r \<Rightarrow> Inr (fixed_str eng r (nat fractionDigits))
            | _ \<Rightarrow> Inr (js_toString eng x)))"

definition js_parseFloat :: "js_engine \<Rightarrow> string \<Rightarrow> jsnum" where
  "js_parseFloat eng s =
     (if take 8 s = ''Infinity'' then PInf
      else if take 9 s = ''-Infinity'' then NInf
      else parse_float eng s)"

text \<open>\<open>Array.prototype.join(separator)\<close> on an array of strings.\<close>

fun js_join :: "string \<Rightarrow> string list \<Rightarrow> string" where
  "js_join sep [] = []"
| "js_join sep [x] = x"
| "js_join sep (x # y # ys) = x @ sep @ js_join sep (y # ys)"

section \<open>Numbers: \<open>shortenNumber\<close>\<close>

definition units :: "(real \<times> string) list" where
  "units = [(10 ^ 12, ''T''), (10 ^ 9, ''B''), (10 ^ 6, ''M''), (10 ^ 3, ''K'')]"

text \<open>The loop over \<open>units\<close>, returning at the first tier the absolute value reaches;
  after the loop the source returns \<open>num.toString()\<close>.\<close>

fun shorten_loop ::
  "js_engine \<Rightarrow> jsnum \<Rightarrow> jsnum \<Rightarrow> string \<Rightarrow> int \<Rightarrow> (real \<times> string) list \<Rightarrow> error + string" where
  "shorten_loop eng num absNum sign decimals [] = Inr (js_toString eng num)"
| "shorten_loop eng num absNum sign decimals ((v, suffix) # rest) =
     (if js_ge absNum (Fin v)
      then (case js_toFixed eng (js_div absNum v) decimals of
              Inl e \<Rightarrow> Inl e
            | Inr shortened \<Rightarrow>
                Inr (sign @ js_toString eng (js_parseFloat eng shortened) @ suffix))
      else shorten_loop eng num absNum sign decimals rest)"

text \<open>\<open>shortenNumber(num, decimals)\<close>; \<open>decimals\<close> is 1 when the caller omits it.\<close>

definition shortenNumber :: "js_engine \<Rightarrow> jsval \<Rightarrow> int \<Rightarrow> error + string" where
  "shortenNumber eng num decimals =
     (case num of
        JNum x \<Rightarrow>
          if js_isNaN x then Inl (Error ''Invalid number provided'')
          else
            (let absNum = js_abs x;
                 sign = (if js_lt x (Fin 0) then ''-'' else [])
             in if js_lt absNum (Fin 1000) then Inr (js_toString eng x)
                else shorten_loop eng x absNum sign decimals units)
      | _ \<Rightarrow> Inl (Error ''Invalid number provided''))"

section \<open>Dates: \<open>formatDuration\<close>\<close>

record duration_options =
  includeSeconds :: bool
  includeMinutes :: bool
  includeHours :: bool
  includeDays :: bool
  includeWeeks :: bool
  includeMonths :: bool
  includeYears :: bool
  maxUnits :: int
  compact :: bool

text \<open>The defaults of the destructuring \<open>const {...} = options\<close>.\<close>

definition default_options :: duration_options where
  "default_options =
     \<lparr>includeSeconds = True, includeMinutes = True, includeHours = True,
      includeDays = True, includeWeeks = True, includeMonths = True,
      includeYears = True, maxUnits = 3, compact = False\<rparr>"

record time_unit =
  name :: string
  seconds :: real
  enabled :: bool

definition timeUnits :: "duration_options \<Rightarrow> time_unit list" where
  "timeUnits opts =
     [\<lparr>name = ''year'', seconds = 31536000, enabled = includeYears opts\<rparr>,
      \<lparr>name = ''month'', seconds = 2592000, enabled = includeMonths opts\<rparr>,
      \<lparr>name = ''week'', seconds = 604800, enabled = includeWeeks opts\<rparr>,
      \<lparr>name = ''day'', seconds = 86400, enabled = includeDays opts\<rparr>,
      \<lparr>name = ''hour'', seconds = 3600, enabled = includeHours opts\<rparr>,
      \<lparr>name = ''minute'', seconds = 60, enabled = includeMinutes opts\<rparr>,
      \<lparr>name = ''second'', seconds = 1, enabled = includeSeconds opts\<rparr>]"

text \<open>
  One term of the output: the count and the unit it was taken from. The source pushes
  the rendered string \<open>`${count}${unitName}`\<close>; the model keeps the pair and renders it
  in \<open>render_term\<close>, so that the order of the units can be stated.
\<close>

type_synonym duration_term = "jsnum \<times> time_unit"

definition render_term :: "js_engine \<Rightarrow> bool \<Rightarrow> duration_term \<Rightarrow> string" where
  "render_term eng cmp tm =
     (let unitName = (if cmp then take 1 (name (snd tm)) else name (snd tm))
      in js_toString eng (fst tm) @ unitName)"

text \<open>The loop \<open>for (const unit of timeUnits)\<close>, with its \<open>continue\<close> and its
  \<open>break\<close>; \<open>terms\<close> is the array \<open>units\<close> of the source.\<close>

fun duration_loop ::
  "int \<Rightarrow> time_unit list \<Rightarrow> jsnum \<Rightarrow> duration_term list \<Rightarrow> duration_term list" where
  "duration_loop maxU [] remaining terms = terms"
| "duration_loop maxU (unit # rest) remaining terms =
     (if \<not> enabled unit \<or> js_lt remaining (Fin (seconds unit))
      then duration_loop maxU rest remaining terms
      else
        (let count = js_floor (js_div remaining (seconds unit));
             remaining' = js_rem remaining (seconds unit);
             terms' = (if js_gt count (Fin 0) then terms @ [(count, unit)] else terms)
         in if maxU \<le> int (length terms') then terms'
            else duration_loop maxU rest remaining' terms'))"

definition formatDuration :: "js_engine \<Rightarrow> jsval \<Rightarrow> duration_options \<Rightarrow> error + string" where
  "formatDuration eng secs opts =
     (case secs of
        JNum x \<Rightarrow>
          if js_isNaN x \<or> js_lt x (Fin 0) then Inl (Error ''Invalid duration provided'')
          else
            (let terms = duration_loop (maxUnits opts) (timeUnits opts) (js_floor x) []
             in if length terms = 0
                then Inr (if compact opts then ''0s'' else ''0 seconds'')
                else Inr (js_join '' '' (map (render_term eng (compact opts)) terms)))
      | _ \<Rightarrow> Inl (Error ''Invalid duration provided''))"

section \<open>Arrays: \<open>chunk\<close>\<close>

text \<open>\<open>Array.prototype.slice(start, end)\<close>: negative indices count from the end,
  both are clamped to the array.\<close>

definition js_slice :: "'a list \<Rightarrow> int \<Rightarrow> int \<Rightarrow> 'a list" where
  "js_slice arr start end =
     (let len = int (length arr);
          k = (if start < 0 then max (len + start) 0 else min start len);
          final = (if end < 0 then max (len + end) 0 else min end len)
      in take (nat (final - k)) (drop (nat k) arr))"

text \<open>
  The loop \<open>for (let i = 0; i < arr.length; i += size) chunks.push(arr.slice(i, i + size))\<close>.
  It is entered only after the guard \<open>size <= 0\<close> has passed; the condition repeats
  \<open>0 < size\<close> so that the recursion is total.
\<close>

function chunk_loop :: "'a list \<Rightarrow> int \<Rightarrow> int \<Rightarrow> 'a list list \<Rightarrow> 'a list list" where
  "chunk_loop arr sz i chunks =
     (if 0 < sz \<and> i < int (length arr)
      then chunk_loop arr sz (i + sz) (chunks @ [js_slice arr i (i + sz)])
      else chunks)"
  by pat_completeness auto
termination
  by (relation "measure (\<lambda>(arr, sz, i, chunks). nat (int (length arr) - i))") auto

declare chunk_loop.simps [simp del]

text \<open>\<open>chunk(arr, size)\<close> for an array \<open>arr\<close> and an integer \<open>size\<close>.\<close>

definition chunk :: "'a list \<Rightarrow> int \<Rightarrow> error + 'a list list" where
  "chunk arr sz =
     (if sz \<le> 0 then Inl (Error ''Invalid size provided'')
      else Inr (chunk_loop arr sz 0 []))"

section \<open>Strings and regular expressions\<close>

text \<open>
  A string is the list of its code units; the model has the units below 256. The
  classes of the source's patterns: \<open>\d\<close> is \<open>[0-9]\<close>, and \<open>\s\<close> below 256 is tab,
  line feed, vertical tab, form feed, carriage return, space and no-break space.
\<close>

definition is_digit :: "char \<Rightarrow> bool" where
  "is_digit c = (48 \<le> (of_char c :: nat) \<and> (of_char c :: nat) \<le> 57)"

definition is_space :: "char \<Rightarrow> bool" where
  "is_space c = ((of_char c :: nat) \<in> {9, 10, 11, 12, 13, 32, 160})"

text \<open>\<open>parseInt\<close> of a string of one code unit: the digit's value, or \<open>NaN\<close>
  (\<open>None\<close>).\<close>

definition parseInt1 :: "char \<Rightarrow> nat option" where
  "parseInt1 c = (if is_digit c then Some (of_char c - 48) else None)"

text \<open>\<open>String.prototype.toUpperCase\<close> on the letters \<open>a\<close> to \<open>z\<close>; every other
  code unit of the model is left as it is.\<close>

definition upper_char :: "char \<Rightarrow> char" where
  "upper_char c =
     (case map_of (zip ''abcdefghijklmnopqrstuvwxyz'' ''ABCDEFGHIJKLMNOPQRSTUVWXYZ'') c of
        Some u \<Rightarrow> u
      | None \<Rightarrow> c)"

definition js_toUpperCase :: "string \<Rightarrow> string" where
  "js_toUpperCase s = map upper_char s"

text \<open>
  The regular expressions of the source, as syntax trees: a literal, a range of a
  class, concatenation and alternation. They have no backreference and no lookaround, so
  \<open>RegExp.prototype.test\<close> decides membership in the language, which the derivatives
  below compute.
\<close>

datatype rx = Nothing | Empty | Lit char | Range char char | Seq rx rx | Alt rx rx

text \<open>\<open>r?\<close>, \<open>r{n}\<close>, \<open>r{0,n}\<close>, \<open>r{m,n}\<close>, a sequence, a literal string, a class
  listing its members, and \<open>\d\<close>.\<close>

definition rx_opt :: "rx \<Rightarrow> rx" where
  "rx_opt r = Alt r Empty"

fun rx_times :: "nat \<Rightarrow> rx \<Rightarrow> rx" where
  "rx_times n r = (if n = 0 then Empty else Seq r (rx_times (n - 1) r))"

fun rx_upto :: "nat \<Rightarrow> rx \<Rightarrow> rx" where
  "rx_upto n r = (if n = 0 then Empty else rx_opt (Seq r (rx_upto (n - 1) r)))"

declare rx_times.simps [simp del] rx_upto.simps [simp del]

definition rx_between :: "nat \<Rightarrow> nat \<Rightarrow> rx \<Rightarrow> rx" where
  "rx_between m n r = Seq (rx_times m r) (rx_upto (n - m) r)"

definition rx_seq :: "rx list \<Rightarrow> rx" where
  "rx_seq rs = foldr Seq rs Empty"

definition rx_str :: "string \<Rightarrow> rx" where
  "rx_str s = rx_seq (map Lit s)"

definition rx_any :: "string \<Rightarrow> rx" where
  "rx_any cs = foldr Alt (map Lit cs) Nothing"

definition rx_digit :: rx where
  "rx_digit = Range CHR ''0'' CHR ''9''"

fun nullable :: "rx \<Rightarrow> bool" where
  "nullable Nothing = False"
| "nullable Empty = True"
| "nullable (Lit a) = False"
| "nullable (Range lo hi) = False"
| "nullable (Seq r s) = (nullable r \<and> nullable s)"
| "nullable (Alt r s) = (nullable r \<or> nullable s)"

fun deriv :: "char \<Rightarrow> rx \<Rightarrow> rx" where
  "deriv c Nothing = Nothing"
| "deriv c Empty = Nothing"
| "deriv c (Lit a) = (if c = a then Empty else Nothing)"
| "deriv c (Range lo hi) =
     (if (of_char lo :: nat) \<le> of_char c \<and> (of_char c :: nat) \<le> of_char hi
      then Empty else Nothing)"
| "deriv c (Seq r s) =
     (if nullable r then Alt (Seq (deriv c r) s) (deriv c s) else Seq (deriv c r) s)"
| "deriv c (Alt r s) = Alt (deriv c r) (deriv c s)"

text \<open>\<open>/^r$/.test(s)\<close> and \<open>/^r/.test(s)\<close>.\<close>

fun rx_test :: "rx \<Rightarrow> string \<Rightarrow> bool" where
  "rx_test r [] = nullable r"
| "rx_test r (c # cs) = rx_test (deriv c r) cs"

fun rx_test_prefix :: "rx \<Rightarrow> string \<Rightarrow> bool" where
  "rx_test_prefix r [] = nullable r"
| "rx_test_prefix r (c # cs) = (nullable r \<or> rx_test_prefix (deriv c r) cs)"

text \<open>The language of a regular expression, to state what the matcher decides.\<close>

fun lang :: "rx \<Rightarrow> string set" where
  "lang Nothing = {}"
| "lang Empty = {[]}"
| "lang (Lit a) = {[a]}"
| "lang (Range lo hi) =
     {[c] | c. (of_char lo :: nat) \<le> of_char c \<and> (of_char c :: nat) \<le> of_char hi}"
| "lang (Seq r s) = {u @ v | u v. u \<in> lang r \<and> v \<in> lang s}"
| "lang (Alt r s) = lang r \<union> lang s"

section \<open>Validation: \<open>isValidPhone\<close> and \<open>isValidPostalCode\<close>\<close>

text \<open>
  The pattern tables. A table is an object literal; its lookup \<open>patterns[key]\<close> is
  \<open>map_of\<close>, since the key has been upper-cased and no inherited property of an object
  has an upper-case name.
\<close>

definition phone_patterns :: "(string \<times> rx) list" where
  "phone_patterns =
     [(''US'', rx_seq [rx_opt (Lit CHR ''1''), Range CHR ''2'' CHR ''9'', rx_times 2 rx_digit,
                      Range CHR ''2'' CHR ''9'', rx_times 2 rx_digit, rx_times 4 rx_digit]),
      (''UK'', rx_seq [Alt (rx_str ''+44'') (Lit CHR ''0''), Range CHR ''1'' CHR ''9'',
                      rx_between 8 9 rx_digit]),
      (''IN'', rx_seq [rx_opt (Alt (rx_str ''+91'') (Lit CHR ''0'')), Range CHR ''6'' CHR ''9'',
                      rx_times 9 rx_digit]),
      (''CA'', rx_seq [rx_opt (Alt (rx_str ''+1'') (Lit CHR ''1'')), Range CHR ''2'' CHR ''9'',
                      rx_times 2 rx_digit, Range CHR ''2'' CHR ''9'', rx_times 2 rx_digit,
                      rx_times 4 rx_digit]),
      (''AU'', rx_seq [Alt (rx_str ''+61'') (Lit CHR ''0''),
                      Alt (Range CHR ''2'' CHR ''4'') (rx_any ''78''), rx_times 8 rx_digit]),
      (''DE'', rx_seq [Alt (rx_str ''+49'') (Lit CHR ''0''), Range CHR ''1'' CHR ''9'',
                      rx_between 1 4 rx_digit, rx_between 1 4 rx_digit,
                      rx_between 1 4 rx_digit]),
      (''FR'', rx_seq [Alt (rx_str ''+33'') (Lit CHR ''0''), Range CHR ''1'' CHR ''9'',
                      rx_times 8 rx_digit]),
      (''JP'', rx_seq [Alt (rx_str ''+81'') (Lit CHR ''0''), rx_any ''789'', Lit CHR ''0'',
                      rx_times 8 rx_digit]),
      (''CN'', rx_seq [rx_opt (Alt (rx_str ''+86'') (Lit CHR ''0'')), Lit CHR ''1'',
                      Range CHR ''3'' CHR ''9'', rx_times 9 rx_digit]),
      (''BR'', rx_seq [rx_opt (Alt (rx_str ''+55'') (Lit CHR ''0'')),
                      rx_times 2 (Range CHR ''1'' CHR ''9''), Range CHR ''2'' CHR ''9'',
                      rx_times 8 rx_digit])]"

text \<open>The generic pattern \<open>/^\d{7,15}$/\<close>.\<close>

definition generic_phone :: rx where
  "generic_phone = rx_between 7 15 rx_digit"

text \<open>
  \<open>isValidPhone(phone, country)\<close>; \<open>country\<close> is \<open>None\<close> for \<open>null\<close> and for an
  omitted argument. The condition \<open>country && patterns[country.toUpperCase()]\<close> is
  false for \<open>null\<close>, for the empty string and for a code the table does not have, and
  the generic pattern decides then.
\<close>

definition isValidPhone :: "jsval \<Rightarrow> string option \<Rightarrow> bool" where
  "isValidPhone phone country =
     (case phone of
        JStr p \<Rightarrow>
          (let digits = filter is_digit p;
               found = (case country of
                          None \<Rightarrow> None
                        | Some c \<Rightarrow>
                            if c = [] then None else map_of phone_patterns (js_toUpperCase c))
           in case found of
                Some pattern \<Rightarrow> rx_test pattern digits
              | None \<Rightarrow> rx_test generic_phone digits)
      | _ \<Rightarrow> False)"

definition rx_upper :: rx where
  "rx_upper = Range CHR ''A'' CHR ''Z''"

definition rx_letter :: rx where
  "rx_letter = Alt (Range CHR ''A'' CHR ''Z'') (Range CHR ''a'' CHR ''z'')"

definition postal_patterns :: "(string \<times> rx) list" where
  "postal_patterns =
     [(''US'', rx_seq [rx_times 5 rx_digit,
                      rx_opt (Seq (Lit CHR ''-'') (rx_times 4 rx_digit))]),
      (''CA'', rx_seq [rx_letter, rx_digit, rx_letter, Lit CHR '' '', rx_digit, rx_letter,
                      rx_digit]),
      (''UK'', rx_seq [rx_between 1 2 rx_upper, rx_digit, rx_opt (Alt rx_upper rx_digit),
                      Lit CHR '' '', rx_digit, rx_times 2 rx_upper]),
      (''DE'', rx_times 5 rx_digit),
      (''FR'', rx_times 5 rx_digit),
      (''JP'', rx_seq [rx_times 3 rx_digit, Lit CHR ''-'', rx_times 4 rx_digit]),
      (''IN'', rx_times 6 rx_digit),
      (''AU'', rx_times 4 rx_digit),
      (''BR'', rx_seq [rx_times 5 rx_digit, rx_opt (Lit CHR ''-''), rx_times 3 rx_digit])]"

text \<open>\<open>isValidPostalCode(postalCode, country)\<close>; \<open>country\<close> is \<open>None\<close> for an omitted
  argument, which the default \<open>'US'\<close> replaces.\<close>

definition isValidPostalCode :: "jsval \<Rightarrow> string option \<Rightarrow> bool" where
  "isValidPostalCode postalCode country =
     (case postalCode of
        JStr p \<Rightarrow>
          (let c = (case country of None \<Rightarrow> ''US'' | Some c \<Rightarrow> c)
           in case map_of postal_patterns (js_toUpperCase c) of
                Some pattern \<Rightarrow> rx_test pattern p
              | None \<Rightarrow> False)
      | _ \<Rightarrow> False)"

section \<open>Validation: \<open>isValidCreditCard\<close> and \<open>isValidISBN\<close>\<close>

text \<open>The result object \<open>{valid, type}\<close>; \<open>type\<close> is \<open>None\<close> for \<open>null\<close>.\<close>

record check_result =
  valid :: bool
  type :: "string option"

text \<open>
  Arithmetic on the result of \<open>parseInt\<close>: \<open>None\<close> is \<open>NaN\<close>, which every operation
  hands on and no comparison accepts.
\<close>

definition nan_add :: "nat option \<Rightarrow> nat option \<Rightarrow> nat option" where
  "nan_add a b = (case (a, b) of (Some x, Some y) \<Rightarrow> Some (x + y) | _ \<Rightarrow> None)"

definition nan_mul :: "nat option \<Rightarrow> nat \<Rightarrow> nat option" where
  "nan_mul a k = map_option (\<lambda>x. x * k) a"

text \<open>\<open>a % m === 0\<close>.\<close>

definition nan_divides :: "nat \<Rightarrow> nat option \<Rightarrow> bool" where
  "nan_divides m a = (case a of Some x \<Rightarrow> x mod m = 0 | None \<Rightarrow> False)"

text \<open>
  The Luhn loop \<open>for (let i = digits.length - 1; i >= 0; i--)\<close>, run over the reversed
  digits: the digit at an odd distance from the right end is doubled, and 9 is taken off
  a double above 9.
\<close>

fun luhn_loop :: "string \<Rightarrow> nat option \<Rightarrow> bool \<Rightarrow> nat option" where
  "luhn_loop [] acc isEven = acc"
| "luhn_loop (c # cs) acc isEven =
     (let digit = parseInt1 c;
          digit = (if isEven
                   then map_option (\<lambda>d. if 9 < d * 2 then d * 2 - 9 else d * 2) digit
                   else digit)
      in luhn_loop cs (nan_add acc digit) (\<not> isEven))"

definition card_patterns :: "(string \<times> rx) list" where
  "card_patterns =
     [(''visa'', Lit CHR ''4''),
      (''mastercard'', Seq (Lit CHR ''5'') (Range CHR ''1'' CHR ''5'')),
      (''amex'', Seq (Lit CHR ''3'') (rx_any ''47'')),
      (''discover'', Seq (Lit CHR ''6'') (Alt (rx_str ''011'') (Lit CHR ''5''))),
      (''diners'', Seq (Lit CHR ''3'') (rx_any ''0689'')),
      (''jcb'', rx_str ''35'')]"

text \<open>The loop over \<open>Object.entries(patterns)\<close>, in the order the literal lists them,
  with its \<open>break\<close> at the first pattern that matches.\<close>

fun detect_type :: "(string \<times> rx) list \<Rightarrow> string \<Rightarrow> string option" where
  "detect_type [] digits = None"
| "detect_type ((cardType, pattern) # rest) digits =
     (if rx_test_prefix pattern digits then Some cardType else detect_type rest digits)"

definition isValidCreditCard :: "jsval \<Rightarrow> check_result" where
  "isValidCreditCard cardNumber =
     (case cardNumber of
        JStr s \<Rightarrow>
          (let digits = filter is_digit s
           in if length digits < 13 \<or> 19 < length digits
              then \<lparr>valid = False, type = None\<rparr>
              else \<lparr>valid = nan_divides 10 (luhn_loop (rev digits) (Some 0) False),
                    type = detect_type card_patterns digits\<rparr>)
      | _ \<Rightarrow> \<lparr>valid = False, type = None\<rparr>)"

text \<open>The two summing loops of \<open>isValidISBN\<close>; \<open>cleaned ! i\<close> is read below the
  length the caller has checked.\<close>

definition isbn10_sum :: "string \<Rightarrow> nat option" where
  "isbn10_sum cleaned =
     fold (\<lambda>i acc. nan_add acc (nan_mul (parseInt1 (cleaned ! i)) (10 - i))) [0..<9] (Some 0)"

definition isbn13_sum :: "string \<Rightarrow> nat option" where
  "isbn13_sum cleaned =
     fold (\<lambda>i acc. nan_add acc (nan_mul (parseInt1 (cleaned ! i)) (if i mod 2 = 0 then 1 else 3)))
       [0..<12] (Some 0)"

definition isValidISBN :: "jsval \<Rightarrow> check_result" where
  "isValidISBN isbn =
     (case isbn of
        JStr s \<Rightarrow>
          (let cleaned = filter (\<lambda>c. c \<noteq> CHR ''-'' \<and> \<not> is_space c) s
           in if length cleaned = 10
              then
                (let acc = isbn10_sum cleaned;
                     checkDigit = (if cleaned ! 9 = CHR ''X'' then Some 10
                                   else parseInt1 (cleaned ! 9))
                 in \<lparr>valid = nan_divides 11 (nan_add acc checkDigit), type = Some ''ISBN-10''\<rparr>)
              else if length cleaned = 13
              then
                (let acc = isbn13_sum cleaned;
                     checkDigit = map_option (\<lambda>x. (10 - x mod 10) mod 10) acc
                 in \<lparr>valid = (case (checkDigit, parseInt1 (cleaned ! 12)) of
                                (Some a, Some b) \<Rightarrow> a = b
                              | _ \<Rightarrow> False),
                      type = Some ''ISBN-13''\<rparr>)
              else \<lparr>valid = False, type = None\<rparr>)
      | _ \<Rightarrow> \<lparr>valid = False, type = None\<rparr>)"

section \<open>Dates: \<open>timeAgo\<close> and \<open>timeFromNow\<close>\<close>

text \<open>
  A \<open>Date\<close> is its time value: the milliseconds since the epoch, an integer, or
  \<open>NaN\<close> for an invalid date (\<open>None\<close>). The model takes the time value of
  \<open>new Date(date)\<close> as the argument, and the time value \<open>now\<close> of \<open>new Date()\<close>,
  the same in the function and in the function it delegates to.

  \<open>Intl.RelativeTimeFormat\<close> is the engine's: \<open>intl locale\<close> is the \<open>format\<close>
  function of \<open>new Intl.RelativeTimeFormat(locale, {numeric: 'auto'})\<close>, or \<open>None\<close>
  where the constructor raises a \<open>RangeError\<close> for the locale.
\<close>

type_synonym relative_format = "int \<Rightarrow> string \<Rightarrow> string"

definition intervals :: "(string \<times> int) list" where
  "intervals =
     [(''year'', 31536000), (''month'', 2592000), (''week'', 604800), (''day'', 86400),
      (''hour'', 3600), (''minute'', 60), (''second'', 1)]"

text \<open>The two loops over \<open>intervals\<close>; on integers \<open>Math.floor(a / b)\<close> is
  \<open>a div b\<close>.\<close>

fun timeAgo_loop :: "relative_format \<Rightarrow> int \<Rightarrow> (string \<times> int) list \<Rightarrow> string" where
  "timeAgo_loop rtf diffInSeconds [] = rtf 0 ''second''"
| "timeAgo_loop rtf diffInSeconds ((unit, secs) # rest) =
     (let count = diffInSeconds div secs
      in if 1 \<le> count then rtf (- count) unit else timeAgo_loop rtf diffInSeconds rest)"

fun timeFromNow_loop :: "relative_format \<Rightarrow> int \<Rightarrow> (string \<times> int) list \<Rightarrow> string" where
  "timeFromNow_loop rtf diffInSeconds [] = rtf 0 ''second''"
| "timeFromNow_loop rtf diffInSeconds ((unit, secs) # rest) =
     (let count = diffInSeconds div secs
      in if 1 \<le> count then rtf count unit else timeFromNow_loop rtf diffInSeconds rest)"

function timeAgo ::
    "(string \<Rightarrow> relative_format option) \<Rightarrow> int \<Rightarrow> int option \<Rightarrow> string \<Rightarrow> error + string"
  and timeFromNow ::
    "(string \<Rightarrow> relative_format option) \<Rightarrow> int \<Rightarrow> int option \<Rightarrow> string \<Rightarrow> error + string"
where
  "timeAgo intl now None locale = Inl (Error ''Invalid date provided'')"
| "timeAgo intl now (Some targetDate) locale =
     (if (now - targetDate) div 1000 < 0 then timeFromNow intl now (Some targetDate) locale
      else (case intl locale of
              None \<Rightarrow> Inl RangeError
            | Some rtf \<Rightarrow> Inr (timeAgo_loop rtf ((now - targetDate) div 1000) intervals)))"
| "timeFromNow intl now None locale = Inl (Error ''Invalid date provided'')"
| "timeFromNow intl now (Some targetDate) locale =
     (if (targetDate - now) div 1000 < 0 then timeAgo intl now (Some targetDate) locale
      else (case intl locale of
              None \<Rightarrow> Inl RangeError
            | Some rtf \<Rightarrow> Inr (timeFromNow_loop rtf ((targetDate - now) div 1000) intervals)))"
  by pat_completeness auto
termination
  by (relation "measure (\<lambda>x. case x of
          Inl (intl, now, date, locale) \<Rightarrow>
            (case date of Some t \<Rightarrow> if now < t then 1 else 0 | None \<Rightarrow> 0)
        | Inr (intl, now, date, locale) \<Rightarrow>
            (case date of Some t \<Rightarrow> if t < now then 1 else 0 | None \<Rightarrow> 0))") auto

declare timeAgo.simps [simp del] timeFromNow.simps [simp del]

section \<open>Dates: \<open>startOf\<close> and \<open>endOf\<close>\<close>

text \<open>
  The time values and the day arithmetic of ECMAScript. A time value is valid within
  \<open>8.64e15\<close> milliseconds of the epoch; \<open>TimeClip\<close> turns every other one into
  \<open>NaN\<close>.
\<close>

definition msPerDay :: int where
  "msPerDay = 86400000"

definition maxTime :: int where
  "maxTime = 8640000000000000"

definition TimeClip :: "int \<Rightarrow> int option" where
  "TimeClip t = (if maxTime < \<bar>t\<bar> then None else Some t)"

definition Day :: "int \<Rightarrow> int" where
  "Day t = t div msPerDay"

definition TimeWithinDay :: "int \<Rightarrow> int" where
  "TimeWithinDay t = t mod msPerDay"

text \<open>The day of the week, 0 for Sunday: the epoch was a Thursday.\<close>

definition WeekDay :: "int \<Rightarrow> int" where
  "WeekDay t = (Day t + 4) mod 7"

definition MakeTime :: "int \<Rightarrow> int \<Rightarrow> int \<Rightarrow> int \<Rightarrow> int" where
  "MakeTime hour minute sec ms = hour * 3600000 + minute * 60000 + sec * 1000 + ms"

definition MakeDate :: "int \<Rightarrow> int \<Rightarrow> int" where
  "MakeDate day time = day * msPerDay + time"

text \<open>
  The proleptic Gregorian calendar: the year, the month (0 for January) and the day of
  the month of a day number, and the day number of the first day of a month.
\<close>

definition civil_from_days :: "int \<Rightarrow> int \<times> int \<times> int" where
  "civil_from_days z =
     (let doe = (z + 719468) mod 146097;
          yoe = (doe - doe div 1460 + doe div 36524 - doe div 146096) div 365;
          doy = doe - (365 * yoe + yoe div 4 - yoe div 100);
          mp = (5 * doy + 2) div 153;
          m = (if mp < 10 then mp + 2 else mp - 10);
          y = yoe + ((z + 719468) div 146097) * 400 + (if m \<le> 1 then 1 else 0)
      in (y, m, doy - (153 * mp + 2) div 5 + 1))"

definition days_from_civil :: "int \<Rightarrow> int \<Rightarrow> int" where
  "days_from_civil year month =
     (let y = (if month \<le> 1 then year - 1 else year);
          yoe = y mod 400;
          doy = (153 * (if 1 < month then month - 2 else month + 10) + 2) div 5
      in (y div 400) * 146097 + (yoe * 365 + yoe div 4 - yoe div 100 + doy) - 719468)"

definition YearFromTime :: "int \<Rightarrow> int" where
  "YearFromTime t = fst (civil_from_days (Day t))"

definition MonthFromTime :: "int \<Rightarrow> int" where
  "MonthFromTime t = fst (snd (civil_from_days (Day t)))"

definition DateFromTime :: "int \<Rightarrow> int" where
  "DateFromTime t = snd (snd (civil_from_days (Day t)))"

text \<open>\<open>MakeDay(year, month, date)\<close>: the day number of the first of the month, which
  may lie in another year, and \<open>date - 1\<close> days on.\<close>

definition MakeDay :: "int \<Rightarrow> int \<Rightarrow> int \<Rightarrow> int" where
  "MakeDay year month date = days_from_civil (year + month div 12) (month mod 12) + date - 1"

text \<open>
  The methods of \<open>Date\<close> the source calls, in local time. The zone is a fixed offset
  \<open>tz\<close> from UTC in milliseconds: \<open>LocalTime(t) = t + tz\<close>, without daylight saving.
  A getter is called on a valid date only. A setter on an invalid date leaves it invalid,
  and clips the time value it computes.

  \<open>setDate(date)\<close> is \<open>MakeDay(YearFromTime(t), MonthFromTime(t), date)\<close> with the time
  within the day kept; the first day of the month of \<open>t\<close> is the day
  \<open>Day(t) - (DateFromTime(t) - 1)\<close>.
\<close>

definition getDay :: "int \<Rightarrow> int \<Rightarrow> int" where
  "getDay tz t = WeekDay (t + tz)"

definition getDate :: "int \<Rightarrow> int \<Rightarrow> int" where
  "getDate tz t = DateFromTime (t + tz)"

definition getMonth :: "int \<Rightarrow> int \<Rightarrow> int" where
  "getMonth tz t = MonthFromTime (t + tz)"

definition setHours :: "int \<Rightarrow> int option \<Rightarrow> int \<Rightarrow> int \<Rightarrow> int \<Rightarrow> int \<Rightarrow> int option" where
  "setHours tz d hour minute sec ms =
     (case d of
        None \<Rightarrow> None
      | Some t \<Rightarrow> TimeClip (MakeDate (Day (t + tz)) (MakeTime hour minute sec ms) - tz))"

definition setDate :: "int \<Rightarrow> int option \<Rightarrow> int \<Rightarrow> int option" where
  "setDate tz d date =
     (case d of
        None \<Rightarrow> None
      | Some t \<Rightarrow>
          (let lt = t + tz
           in TimeClip (MakeDate (Day lt - (DateFromTime lt - 1) + date - 1) (TimeWithinDay lt) - tz)))"

definition setMonth :: "int \<Rightarrow> int option \<Rightarrow> int \<Rightarrow> int \<Rightarrow> int option" where
  "setMonth tz d month date =
     (case d of
        None \<Rightarrow> None
      | Some t \<Rightarrow>
          (let lt = t + tz
           in TimeClip (MakeDate (MakeDay (YearFromTime lt) month date) (TimeWithinDay lt) - tz)))"

text \<open>
  \<open>startOf(date, period)\<close> and \<open>endOf(date, period)\<close>, on the time value of
  \<open>new Date(date)\<close>. The result is the time value of the \<open>Date\<close> returned, \<open>None\<close>
  when that date is invalid.
\<close>

definition startOf :: "int \<Rightarrow> int option \<Rightarrow> string \<Rightarrow> error + int option" where
  "startOf tz date period =
     (case date of
        None \<Rightarrow> Inl (Error ''Invalid date provided'')
      | Some t \<Rightarrow>
          if period = ''day'' then Inr (setHours tz (Some t) 0 0 0 0)
          else if period = ''week'' then
            (let dayOfWeek = getDay tz t;
                 daysToSubtract = (if dayOfWeek = 0 then 6 else dayOfWeek - 1)
             in Inr (setHours tz (setDate tz (Some t) (getDate tz t - daysToSubtract)) 0 0 0 0))
          else if period = ''month'' then Inr (setHours tz (setDate tz (Some t) 1) 0 0 0 0)
          else if period = ''year'' then Inr (setHours tz (setMonth tz (Some t) 0 1) 0 0 0 0)
          else Inl (Error ''Invalid period provided''))"

definition endOf :: "int \<Rightarrow> int option \<Rightarrow> string \<Rightarrow> error + int option" where
  "endOf tz date period =
     (case date of
        None \<Rightarrow> Inl (Error ''Invalid date provided'')
      | Some t \<Rightarrow>
          if period = ''day'' then Inr (setHours tz (Some t) 23 59 59 999)
          else if period = ''week'' then
            (let dayOfWeek = getDay tz t;
                 daysToAdd = (if dayOfWeek = 0 then 0 else 7 - dayOfWeek)
             in Inr (setHours tz (setDate tz (Some t) (getDate tz t + daysToAdd)) 23 59 59 999))
          else if period = ''month'' then
            Inr (setHours tz (setMonth tz (Some t) (getMonth tz t + 1) 0) 23 59 59 999)
          else if period = ''year'' then Inr (setHours tz (setMonth tz (Some t) 11 31) 23 59 59 999)
          else Inl (Error ''Invalid period provided''))"

text \<open>A formatter for the concrete instances below: the count, a space and the unit.\<close>

definition plain_format :: "string \<Rightarrow> relative_format option" where
  "plain_format locale = Some (\<lambda>n u. int_str n @ '' '' @ u)"

section \<open>The matcher decides the language\<close>

lemma nullable_lang: "nullable r = ([] \<in> lang r)"
  by (induction r) auto

lemma deriv_lang: "(s \<in> lang (deriv c r)) = (c # s \<in> lang r)"
proof (induction r arbitrary: s)
  case (Seq r1 r2)
  show ?case
  proof
    assume "s \<in> lang (deriv c (Seq r1 r2))"
    then consider (left) u v where "s = u @ v" "u \<in> lang (deriv c r1)" "v \<in> lang r2"
      | (right) "nullable r1" "s \<in> lang (deriv c r2)"
      by (auto split: if_splits)
    then show "c # s \<in> lang (Seq r1 r2)"
    proof cases
      case left
      then have "c # u \<in> lang r1" using Seq.IH(1) by simp
      then have "(c # u) @ v \<in> lang (Seq r1 r2)" using left(3) unfolding lang.simps by blast
      then show ?thesis using left(1) by simp
    next
      case right
      then have "[] \<in> lang r1" "c # s \<in> lang r2"
        using nullable_lang Seq.IH(2) by auto
      then have "[] @ (c # s) \<in> lang (Seq r1 r2)" unfolding lang.simps by blast
      then show ?thesis by simp
    qed
  next
    assume "c # s \<in> lang (Seq r1 r2)"
    then obtain u v where uv: "c # s = u @ v" "u \<in> lang r1" "v \<in> lang r2" by auto
    show "s \<in> lang (deriv c (Seq r1 r2))"
    proof (cases u)
      case Nil
      then have "nullable r1" "s \<in> lang (deriv c r2)"
        using uv nullable_lang Seq.IH(2) by auto
      then show ?thesis by simp
    next
      case (Cons a u')
      then have "a = c" "s = u' @ v" using uv(1) by auto
      moreover have "u' \<in> lang (deriv c r1)" using uv(2) Cons \<open>a = c\<close> Seq.IH(1) by simp
      ultimately show ?thesis using uv(3) by auto
    qed
  qed
qed auto

lemma rx_test_lang: "rx_test r s = (s \<in> lang r)"
  by (induction s arbitrary: r) (simp_all add: nullable_lang deriv_lang)

lemma rx_test_prefix_lang: "rx_test_prefix r s = (\<exists>u v. s = u @ v \<and> u \<in> lang r)"
proof (induction s arbitrary: r)
  case Nil
  then show ?case by (simp add: nullable_lang)
next
  case (Cons c s)
  show ?case
  proof
    assume "rx_test_prefix r (c # s)"
    then consider "[] \<in> lang r" | u v where "s = u @ v" "c # u \<in> lang r"
      using Cons.IH [of "deriv c r"] by (auto simp: nullable_lang deriv_lang)
    then show "\<exists>u v. c # s = u @ v \<and> u \<in> lang r"
    proof cases
      case 1
      then have "c # s = [] @ (c # s) \<and> [] \<in> lang r" by simp
      then show ?thesis by blast
    next
      case 2
      then have "c # s = (c # u) @ v \<and> c # u \<in> lang r" by simp
      then show ?thesis by blast
    qed
  next
    assume "\<exists>u v. c # s = u @ v \<and> u \<in> lang r"
    then obtain u v where uv: "c # s = u @ v" "u \<in> lang r" by blast
    show "rx_test_prefix r (c # s)"
    proof (cases u)
      case Nil
      then show ?thesis using uv(2) by (simp add: nullable_lang)
    next
      case (Cons a u')
      then have "s = u' @ v" "u' \<in> lang (deriv c r)" using uv by (auto simp: deriv_lang)
      then have "rx_test_prefix (deriv c r) s" using Cons.IH [of "deriv c r"] by blast
      then show ?thesis by simp
    qed
  qed
qed

lemma starts_with_iff: "(\<exists>v. s = p @ v) = (take (length p) s = p)"
proof
  assume "\<exists>v. s = p @ v"
  then show "take (length p) s = p" by auto
next
  assume "take (length p) s = p"
  then have "s = p @ drop (length p) s" by (metis append_take_drop_id)
  then show "\<exists>v. s = p @ v" by blast
qed

lemma prefix_of_finite:
  assumes "lang r = set ps"
  shows "rx_test_prefix r s = (\<exists>p\<in>set ps. take (length p) s = p)"
  using assms by (auto simp: rx_test_prefix_lang starts_with_iff [symmetric])

section \<open>Properties of \<open>chunk\<close>\<close>

lemma js_slice_window:
  assumes "0 \<le> i" "0 < sz" "i < int (length arr)"
  shows "js_slice arr i (i + sz) = take (nat sz) (drop (nat i) arr)"
  using assms by (auto simp: js_slice_def Let_def min_def)

lemma chunk_loop_concat:
  "0 < sz \<Longrightarrow> 0 \<le> i \<Longrightarrow> concat (chunk_loop arr sz i chunks) = concat chunks @ drop (nat i) arr"
proof (induction arr sz i chunks rule: chunk_loop.induct)
  case (1 arr sz i chunks)
  show ?case
  proof (cases "i < int (length arr)")
    case True
    have step: "chunk_loop arr sz i chunks =
        chunk_loop arr sz (i + sz) (chunks @ [js_slice arr i (i + sz)])"
      using True "1.prems" by (subst chunk_loop.simps) simp
    have win: "js_slice arr i (i + sz) = take (nat sz) (drop (nat i) arr)"
      using True "1.prems" by (simp add: js_slice_window)
    have "concat (chunk_loop arr sz (i + sz) (chunks @ [js_slice arr i (i + sz)])) =
        concat (chunks @ [js_slice arr i (i + sz)]) @ drop (nat (i + sz)) arr"
      using "1.IH" True "1.prems" by simp
    also have "\<dots> = concat chunks @ take (nat sz) (drop (nat i) arr) @ drop (nat sz) (drop (nat i) arr)"
      using "1.prems" by (simp add: win nat_add_distrib add.commute)
    also have "\<dots> = concat chunks @ drop (nat i) arr"
      by (simp only: append_take_drop_id)
    finally show ?thesis using step by (simp only:)
  next
    case False
    then show ?thesis by (subst chunk_loop.simps) simp
  qed
qed

lemma chunk_loop_shape:
  "0 < sz \<Longrightarrow> 0 \<le> i \<Longrightarrow> \<forall>c\<in>set chunks. length c = nat sz \<Longrightarrow>
   (\<forall>c\<in>set (butlast (chunk_loop arr sz i chunks)). length c = nat sz) \<and>
   (chunk_loop arr sz i chunks \<noteq> [] \<longrightarrow>
      1 \<le> length (last (chunk_loop arr sz i chunks)) \<and>
      length (last (chunk_loop arr sz i chunks)) \<le> nat sz)"
proof (induction arr sz i chunks rule: chunk_loop.induct)
  case (1 arr sz i chunks)
  show ?case
  proof (cases "i < int (length arr)")
    case False
    then have stop: "chunk_loop arr sz i chunks = chunks" by (subst chunk_loop.simps) simp
    have "\<forall>c\<in>set (butlast chunks). length c = nat sz"
      using "1.prems"(3) by (meson in_set_butlastD)
    moreover have "chunks \<noteq> [] \<longrightarrow> length (last chunks) = nat sz"
      using "1.prems"(3) by simp
    moreover have "1 \<le> nat sz" using "1.prems"(1) by simp
    ultimately show ?thesis unfolding stop by simp
  next
    case True
    let ?c = "js_slice arr i (i + sz)"
    have step: "chunk_loop arr sz i chunks = chunk_loop arr sz (i + sz) (chunks @ [?c])"
      using True "1.prems" by (subst chunk_loop.simps) simp
    have win: "?c = take (nat sz) (drop (nat i) arr)"
      using True "1.prems" by (simp add: js_slice_window)
    show ?thesis
    proof (cases "i + sz < int (length arr)")
      case True
      then have "length ?c = nat sz" using "1.prems" by (auto simp: win min_def)
      then have all: "\<forall>c\<in>set (chunks @ [?c]). length c = nat sz" using "1.prems"(3) by auto
      have cond: "0 < sz \<and> i < int (length arr)" using "1.prems"(1) \<open>i < int (length arr)\<close> by simp
      have nonneg: "0 \<le> i + sz" using "1.prems" by simp
      show ?thesis unfolding step by (rule "1.IH" [OF cond "1.prems"(1) nonneg all])
    next
      case False
      then have stop: "chunk_loop arr sz (i + sz) (chunks @ [?c]) = chunks @ [?c]"
        by (subst chunk_loop.simps) simp
      have len: "1 \<le> length ?c \<and> length ?c \<le> nat sz"
        using True "1.prems" by (auto simp: win min_def)
      have "\<forall>c\<in>set chunks. length c = nat sz" using "1.prems"(3) .
      then show ?thesis unfolding step stop using len by simp
    qed
  qed
qed

text \<open>
  Claim C10. For every array \<open>arr\<close> and every integer \<open>size > 0\<close>, \<open>chunk(arr, size)\<close>
  returns sub-arrays whose concatenation, in order, is \<open>arr\<close>; every sub-array but the
  last has exactly \<open>size\<close> elements, the last has between 1 and \<open>size\<close>, and the chunks
  of the empty array are the empty list.
\<close>

theorem chunk_partition:
  assumes "0 < sz"
  shows "\<exists>cs. chunk arr sz = Inr cs \<and> concat cs = arr \<and>
           (\<forall>c\<in>set (butlast cs). int (length c) = sz) \<and>
           (cs \<noteq> [] \<longrightarrow> 1 \<le> length (last cs) \<and> int (length (last cs)) \<le> sz) \<and>
           (arr = [] \<longrightarrow> cs = [])"
proof -
  let ?cs = "chunk_loop arr sz 0 []"
  have res: "chunk arr sz = Inr ?cs" using assms by (simp add: chunk_def)
  have cat: "concat ?cs = arr" using chunk_loop_concat [of sz 0 arr "[]"] assms by simp
  have shape: "(\<forall>c\<in>set (butlast ?cs). length c = nat sz) \<and>
      (?cs \<noteq> [] \<longrightarrow> 1 \<le> length (last ?cs) \<and> length (last ?cs) \<le> nat sz)"
    using chunk_loop_shape [of sz 0 "[]" arr] assms by simp
  have empty: "arr = [] \<longrightarrow> ?cs = []" by (subst chunk_loop.simps) simp
  have "(\<forall>c\<in>set (butlast ?cs). int (length c) = sz)" using shape assms by auto
  moreover have "?cs \<noteq> [] \<longrightarrow> 1 \<le> length (last ?cs) \<and> int (length (last ?cs)) \<le> sz"
    using shape assms by auto
  ultimately show ?thesis using res cat empty by blast
qed

text \<open>The theorem at \<open>chunk([1, 2, 3, 4, 5, 6, 7], 3)\<close>.\<close>

theorem chunk_partition_witness:
  "(0::int) < 3 \<and>
   (\<exists>cs. chunk [1, 2, 3, 4, 5, 6, 7 :: nat] 3 = Inr cs \<and> concat cs = [1, 2, 3, 4, 5, 6, 7] \<and>
      (\<forall>c\<in>set (butlast cs). int (length c) = 3) \<and>
      (cs \<noteq> [] \<longrightarrow> 1 \<le> length (last cs) \<and> int (length (last cs)) \<le> 3) \<and>
      ([1, 2, 3, 4, 5, 6, 7 :: nat] = [] \<longrightarrow> cs = []))"
proof -
  have h: "(0::int) < 3" by simp
  show ?thesis by (intro conjI h chunk_partition [OF h])
qed

section \<open>Properties of \<open>shortenNumber\<close>\<close>

lemma shorten_loop_no_Error:
  "shorten_loop eng num absNum sign decimals us \<noteq> Inl (Error m)"
  by (induction us) (auto simp: js_toFixed_def split: sum.splits if_splits jsnum.splits)

text \<open>The guard \<open>typeof num !== 'number' || isNaN(num)\<close>: an argument that is not
  a number and \<open>NaN\<close> raise \<open>Invalid number provided\<close>, and no finite number does.\<close>

lemma shortenNumber_guard:
  "shortenNumber eng (JStr s) decimals = Inl (Error ''Invalid number provided'') \<and>
   shortenNumber eng JOther decimals = Inl (Error ''Invalid number provided'') \<and>
   shortenNumber eng (JNum NaN) decimals = Inl (Error ''Invalid number provided'') \<and>
   shortenNumber eng (JNum (Fin v)) decimals \<noteq> Inl (Error ''Invalid number provided'')"
  by (simp add: shortenNumber_def js_isNaN_def Let_def shorten_loop_no_Error)

text \<open>
  Claim C2. \<open>shortenNumber\<close> raises for every input that is not finite: \<open>NaN\<close>,
  \<open>+Infinity\<close> and \<open>-Infinity\<close>. The code raises for \<open>NaN\<close> only. Its guard tests
  \<open>isNaN\<close> and not \<open>isFinite\<close>, so the infinities reach the scan of the tiers, pass
  \<open>absNum >= 1e12\<close> and come back as the strings \<open>InfinityT\<close> and \<open>-InfinityT\<close>,
  whatever the engine prints for finite numbers.
\<close>

theorem shortenNumber_accepts_infinity:
  "\<forall>eng. shortenNumber eng (JNum PInf) 1 = Inr ''InfinityT'' \<and>
         shortenNumber eng (JNum NInf) 1 = Inr ''-InfinityT''"
  by (simp add: shortenNumber_def js_isNaN_def units_def js_ge_def js_toFixed_def
      js_parseFloat_def)

lemma shortenNumber_small:
  assumes "\<bar>v\<bar> < 1000"
  shows "shortenNumber eng (JNum (Fin v)) decimals = Inr (js_toString eng (Fin v))"
  using assms by (simp add: shortenNumber_def js_isNaN_def Let_def)

lemma shortenNumber_trillions:
  assumes "10 ^ 12 \<le> \<bar>v\<bar>" "0 \<le> decimals" "decimals \<le> 100"
  shows "shortenNumber eng (JNum (Fin v)) decimals =
     Inr ((if v < 0 then ''-'' else []) @
          js_toString eng (js_parseFloat eng (fixed_str eng (\<bar>v\<bar> / 10 ^ 12) (nat decimals))) @
          ''T'')"
proof -
  have big: "\<not> \<bar>v\<bar> < 1000" using assms(1) by simp
  show ?thesis
    using assms big
    by (simp add: shortenNumber_def js_isNaN_def Let_def units_def js_ge_def js_toFixed_def)
qed

text \<open>Below \<open>1e12\<close> the scan goes on to the first tier the absolute value reaches,
  so one tier is chosen and it is the largest that fits.\<close>

lemma shortenNumber_lower_tiers:
  assumes "0 \<le> decimals" "decimals \<le> 100"
  shows "10 ^ 9 \<le> \<bar>v\<bar> \<and> \<bar>v\<bar> < 10 ^ 12 \<Longrightarrow>
      shortenNumber eng (JNum (Fin v)) decimals =
        Inr ((if v < 0 then ''-'' else []) @
             js_toString eng (js_parseFloat eng (fixed_str eng (\<bar>v\<bar> / 10 ^ 9) (nat decimals))) @
             ''B'')"
    and "10 ^ 6 \<le> \<bar>v\<bar> \<and> \<bar>v\<bar> < 10 ^ 9 \<Longrightarrow>
      shortenNumber eng (JNum (Fin v)) decimals =
        Inr ((if v < 0 then ''-'' else []) @
             js_toString eng (js_parseFloat eng (fixed_str eng (\<bar>v\<bar> / 10 ^ 6) (nat decimals))) @
             ''M'')"
    and "10 ^ 3 \<le> \<bar>v\<bar> \<and> \<bar>v\<bar> < 10 ^ 6 \<Longrightarrow>
      shortenNumber eng (JNum (Fin v)) decimals =
        Inr ((if v < 0 then ''-'' else []) @
             js_toString eng (js_parseFloat eng (fixed_str eng (\<bar>v\<bar> / 10 ^ 3) (nat decimals))) @
             ''K'')"
  using assms
  by (simp_all add: shortenNumber_def js_isNaN_def Let_def units_def js_ge_def js_toFixed_def)

text \<open>
  Claim C3. For every finite \<open>v\<close> with \<open>|v| < 1000\<close>, \<open>shortenNumber(v)\<close> is
  \<open>v.toString()\<close>, without a suffix; for every finite \<open>v\<close> with \<open>|v| >= 1e12\<close> the result
  is the sign, the rounded quotient by \<open>1e12\<close> and the suffix \<open>T\<close>, the first tier of the
  scan. (Stated for every \<open>decimals\<close> that \<open>toFixed\<close> accepts; the default is 1.)
\<close>

theorem shortenNumber_tiers:
  "(\<bar>v\<bar> < 1000 \<longrightarrow>
      shortenNumber eng (JNum (Fin v)) decimals = Inr (js_toString eng (Fin v))) \<and>
   (10 ^ 12 \<le> \<bar>v\<bar> \<and> 0 \<le> decimals \<and> decimals \<le> 100 \<longrightarrow>
      shortenNumber eng (JNum (Fin v)) decimals =
        Inr ((if v < 0 then ''-'' else []) @
             js_toString eng (js_parseFloat eng (fixed_str eng (\<bar>v\<bar> / 10 ^ 12) (nat decimals))) @
             ''T''))"
  using shortenNumber_small shortenNumber_trillions by blast

text \<open>The theorem at \<open>-999\<close> and at \<open>-2.5e12\<close>, for every engine.\<close>

theorem shortenNumber_tiers_witness:
  "\<bar>-999::real\<bar> < 1000 \<and>
   (\<forall>eng. shortenNumber eng (JNum (Fin (-999))) 1 = Inr ''-999'') \<and>
   (10::real) ^ 12 \<le> \<bar>-2500000000000\<bar> \<and> (0::int) \<le> 1 \<and> (1::int) \<le> 100 \<and>
   (\<forall>eng. shortenNumber eng (JNum (Fin (-2500000000000))) 1 =
      Inr (''-'' @ js_toString eng (js_parseFloat eng (fixed_str eng (5 / 2) 1)) @ ''T''))"
proof -
  have small: "\<bar>-999::real\<bar> < 1000" by simp
  have big: "(10::real) ^ 12 \<le> \<bar>-2500000000000\<bar> \<and> (0::int) \<le> 1 \<and> (1::int) \<le> 100" by simp
  have a: "shortenNumber eng (JNum (Fin (-999))) 1 = Inr ''-999''" for eng
    using shortenNumber_tiers [where v = "-999" and eng = eng and decimals = 1] small
    by (simp add: int_str_def dec_digits.simps digit_char_def)
  have b: "shortenNumber eng (JNum (Fin (-2500000000000))) 1 =
      Inr (''-'' @ js_toString eng (js_parseFloat eng (fixed_str eng (5 / 2) 1)) @ ''T'')" for eng
    using shortenNumber_tiers [where v = "-2500000000000" and eng = eng and decimals = 1] big by simp
  show ?thesis using small big a b by blast
qed

section \<open>Properties of \<open>formatDuration\<close>\<close>

lemmas duration_eval =
  formatDuration_def default_options_def timeUnits_def js_isNaN_def js_gt_def render_term_def
  Let_def int_str_def dec_digits.simps digit_char_def

lemma formatDuration_number:
  "formatDuration eng (JNum x) opts = Inl (Error ''Invalid duration provided'') \<or>
   (\<exists>s. formatDuration eng (JNum x) opts = Inr s)"
  by (simp add: formatDuration_def Let_def)

text \<open>The guard \<open>typeof seconds !== 'number' || isNaN(seconds) || seconds < 0\<close>: an
  argument that is not a number, \<open>NaN\<close>, \<open>-Infinity\<close> and every negative number raise
  \<open>Invalid duration provided\<close>; every finite \<open>seconds >= 0\<close> returns a string.\<close>

lemma formatDuration_guard:
  "formatDuration eng (JStr s) opts = Inl (Error ''Invalid duration provided'') \<and>
   formatDuration eng JOther opts = Inl (Error ''Invalid duration provided'') \<and>
   formatDuration eng (JNum NaN) opts = Inl (Error ''Invalid duration provided'') \<and>
   formatDuration eng (JNum NInf) opts = Inl (Error ''Invalid duration provided'') \<and>
   (formatDuration eng (JNum (Fin r)) opts = Inl (Error ''Invalid duration provided'')) = (r < 0) \<and>
   (\<exists>str. formatDuration eng (JNum (Fin r)) opts = Inr str) = (0 \<le> r)"
proof -
  have b: "(formatDuration eng (JNum (Fin r)) opts = Inl (Error ''Invalid duration provided'')) = (r < 0)"
    by (simp add: formatDuration_def Let_def js_isNaN_def)
  have c: "(\<exists>str. formatDuration eng (JNum (Fin r)) opts = Inr str) = (0 \<le> r)"
    using b formatDuration_number [of eng "Fin r" opts] by auto
  have d: "formatDuration eng (JStr s) opts = Inl (Error ''Invalid duration provided'') \<and>
      formatDuration eng JOther opts = Inl (Error ''Invalid duration provided'') \<and>
      formatDuration eng (JNum NaN) opts = Inl (Error ''Invalid duration provided'') \<and>
      formatDuration eng (JNum NInf) opts = Inl (Error ''Invalid duration provided'')"
    by (simp add: formatDuration_def js_isNaN_def)
  show ?thesis using b c d by blast
qed

text \<open>
  Claim C4. \<open>formatDuration\<close> raises if and only if \<open>seconds\<close> is negative or not
  finite. The code does not raise for \<open>+Infinity\<close>. Its guard tests \<open>isNaN\<close> and the
  sign and not \<open>isFinite\<close>, so \<open>+Infinity\<close> enters the loop: the first unit takes the
  count \<open>Infinity\<close>, the remainder becomes \<open>NaN\<close>, no later unit has a count above
  zero, and the string \<open>Infinityyear\<close> comes back.
\<close>

theorem formatDuration_accepts_infinity:
  "\<forall>eng. formatDuration eng (JNum PInf) default_options = Inr ''Infinityyear''"
  by (simp add: duration_eval)

lemma duration_loop_descending:
  assumes "sorted_wrt (\<lambda>a b. seconds b < seconds a) us"
    and "sorted_wrt (\<lambda>a b. seconds (snd b) < seconds (snd a)) terms"
    and "\<forall>t\<in>set terms. \<forall>u\<in>set us. seconds u < seconds (snd t)"
    and "\<forall>t\<in>set terms. js_gt (fst t) (Fin 0)"
  shows "sorted_wrt (\<lambda>a b. seconds (snd b) < seconds (snd a)) (duration_loop maxU us remaining terms) \<and>
         (\<forall>t\<in>set (duration_loop maxU us remaining terms). js_gt (fst t) (Fin 0))"
  using assms
proof (induction us arbitrary: remaining terms)
  case Nil
  then show ?case by simp
next
  case (Cons u us)
  let ?count = "js_floor (js_div remaining (seconds u))"
  let ?terms' = "if js_gt ?count (Fin 0) then terms @ [(?count, u)] else terms"
  have us: "sorted_wrt (\<lambda>a b. seconds b < seconds a) us" using Cons.prems(1) by simp
  have below: "\<forall>v\<in>set us. seconds v < seconds u" using Cons.prems(1) by simp
  have old: "\<forall>t\<in>set terms. \<forall>v\<in>set us. seconds v < seconds (snd t)"
    using Cons.prems(3) by simp
  have s': "sorted_wrt (\<lambda>a b. seconds (snd b) < seconds (snd a)) ?terms'"
    using Cons.prems(2,3) by (simp add: sorted_wrt_append)
  have b': "\<forall>t\<in>set ?terms'. \<forall>v\<in>set us. seconds v < seconds (snd t)"
    using old below by simp
  have p': "\<forall>t\<in>set ?terms'. js_gt (fst t) (Fin 0)"
    using Cons.prems(4) by simp
  have skip: "sorted_wrt (\<lambda>a b. seconds (snd b) < seconds (snd a)) (duration_loop maxU us remaining terms) \<and>
         (\<forall>t\<in>set (duration_loop maxU us remaining terms). js_gt (fst t) (Fin 0))"
    by (rule Cons.IH [OF us Cons.prems(2) old Cons.prems(4)])
  have go: "sorted_wrt (\<lambda>a b. seconds (snd b) < seconds (snd a))
        (duration_loop maxU us (js_rem remaining (seconds u)) ?terms') \<and>
      (\<forall>t\<in>set (duration_loop maxU us (js_rem remaining (seconds u)) ?terms'). js_gt (fst t) (Fin 0))"
    by (rule Cons.IH [OF us s' b' p'])
  show ?case
  proof (cases "\<not> enabled u \<or> js_lt remaining (Fin (seconds u))")
    case True
    then show ?thesis using skip by simp
  next
    case False
    show ?thesis
    proof (cases "maxU \<le> int (length ?terms')")
      case True
      then show ?thesis using False s' p' by (simp add: Let_def)
    next
      case stay: False
      then show ?thesis using False go by (simp add: Let_def)
    qed
  qed
qed

lemma timeUnits_descending: "sorted_wrt (\<lambda>a b. seconds b < seconds a) (timeUnits opts)"
  by (simp add: timeUnits_def)

lemma duration_loop_length:
  assumes "int (length terms) < maxU \<or> terms = []"
  shows "int (length (duration_loop maxU us remaining terms)) \<le> max maxU 1"
  using assms
proof (induction us arbitrary: remaining terms)
  case Nil
  then show ?case by auto
next
  case (Cons u us)
  let ?count = "js_floor (js_div remaining (seconds u))"
  let ?terms' = "if js_gt ?count (Fin 0) then terms @ [(?count, u)] else terms"
  have len: "int (length ?terms') \<le> max maxU 1" using Cons.prems by auto
  show ?case
  proof (cases "\<not> enabled u \<or> js_lt remaining (Fin (seconds u))")
    case True
    then show ?thesis using Cons.IH [OF Cons.prems] by simp
  next
    case False
    show ?thesis
    proof (cases "maxU \<le> int (length ?terms')")
      case True
      then show ?thesis using False len by (simp add: Let_def)
    next
      case stay: False
      then have "int (length ?terms') < maxU \<or> ?terms' = []" by simp
      then have "int (length (duration_loop maxU us (js_rem remaining (seconds u)) ?terms')) \<le> max maxU 1"
        by (rule Cons.IH)
      then show ?thesis using False stay by (simp add: Let_def)
    qed
  qed
qed

text \<open>
  For every finite \<open>seconds >= 0\<close> the output is the rendering of terms in strictly
  descending unit order, each with a count above zero, and of at most \<open>maxUnits\<close> terms
  (one term when \<open>maxUnits\<close> is below 1: the \<open>break\<close> is tested after the push).
\<close>

lemma formatDuration_terms:
  assumes "0 \<le> r"
  shows "\<exists>terms. formatDuration eng (JNum (Fin r)) opts =
            Inr (if terms = [] then (if compact opts then ''0s'' else ''0 seconds'')
                 else js_join '' '' (map (render_term eng (compact opts)) terms)) \<and>
          sorted_wrt (\<lambda>a b. seconds (snd b) < seconds (snd a)) terms \<and>
          (\<forall>t\<in>set terms. js_gt (fst t) (Fin 0)) \<and>
          int (length terms) \<le> max (maxUnits opts) 1"
proof -
  let ?terms = "duration_loop (maxUnits opts) (timeUnits opts) (js_floor (Fin r)) []"
  have "formatDuration eng (JNum (Fin r)) opts =
            Inr (if ?terms = [] then (if compact opts then ''0s'' else ''0 seconds'')
                 else js_join '' '' (map (render_term eng (compact opts)) ?terms))"
    using assms by (simp add: formatDuration_def Let_def js_isNaN_def)
  moreover have "sorted_wrt (\<lambda>a b. seconds (snd b) < seconds (snd a)) ?terms \<and>
      (\<forall>t\<in>set ?terms. js_gt (fst t) (Fin 0))"
    by (rule duration_loop_descending [OF timeUnits_descending]) simp_all
  moreover have "int (length ?terms) \<le> max (maxUnits opts) 1"
    by (rule duration_loop_length) simp
  ultimately show ?thesis by blast
qed

text \<open>
  Claim C1. \<open>formatDuration(0)\<close> is \<open>"0 seconds"\<close>, as the claim says. For 3661 seconds
  the code does not return the claim's \<open>"1h 1m 1s"\<close> and \<open>"1h 1m"\<close>: \<open>compact\<close> is false
  unless the caller sets it, and the terms are the counts with the full unit names
  appended. The order of the terms and the omission of zero counts are as the claim
  says (\<open>formatDuration_terms\<close>).
\<close>

theorem formatDuration_3661:
  "formatDuration eng (JNum (Fin 3661)) default_options = Inr ''1hour 1minute 1second'' \<and>
   formatDuration eng (JNum (Fin 3661)) (default_options\<lparr>maxUnits := 2\<rparr>) = Inr ''1hour 1minute'' \<and>
   formatDuration eng (JNum (Fin 3661)) (default_options\<lparr>compact := True\<rparr>) = Inr ''1h 1m 1s'' \<and>
   formatDuration eng (JNum (Fin 0)) default_options = Inr ''0 seconds''"
  by (simp add: duration_eval)

section \<open>Properties of \<open>timeAgo\<close> and \<open>timeFromNow\<close>\<close>

lemma div_1000_neg: "((x::int) div 1000 < 0) = (x < 0)"
  by (simp add: pos_imp_zdiv_neg_iff)

lemma timeAgo_future:
  assumes "now < t"
  shows "timeAgo intl now (Some t) locale = timeFromNow intl now (Some t) locale"
  using assms by (simp add: timeAgo.simps(2) div_1000_neg)

lemma timeFromNow_past:
  assumes "t < now"
  shows "timeFromNow intl now (Some t) locale = timeAgo intl now (Some t) locale"
  using assms by (simp add: timeFromNow.simps(2) div_1000_neg)

lemma timeAgo_direct:
  assumes "t \<le> now"
  shows "timeAgo intl now (Some t) locale =
    (case intl locale of None \<Rightarrow> Inl RangeError
     | Some rtf \<Rightarrow> Inr (timeAgo_loop rtf ((now - t) div 1000) intervals))"
  using assms by (simp add: timeAgo.simps(2) div_1000_neg)

lemma timeFromNow_direct:
  assumes "now \<le> t"
  shows "timeFromNow intl now (Some t) locale =
    (case intl locale of None \<Rightarrow> Inl RangeError
     | Some rtf \<Rightarrow> Inr (timeFromNow_loop rtf ((t - now) div 1000) intervals))"
  using assms by (simp add: timeFromNow.simps(2) div_1000_neg)

lemma loops_at_zero:
  "timeAgo_loop rtf 0 intervals = rtf 0 ''second''"
  "timeFromNow_loop rtf 0 intervals = rtf 0 ''second''"
  by (simp_all add: intervals_def)

text \<open>
  Claim C7. For a fixed current time, \<open>timeAgo\<close> and \<open>timeFromNow\<close> return the same
  result for every instant, whichever is called: for an instant strictly in the future
  \<open>timeAgo\<close> delegates to \<open>timeFromNow\<close> and returns the phrase its loop computes, and
  for an instant strictly in the past \<open>timeFromNow\<close> delegates to \<open>timeAgo\<close>. (For an
  invalid date both raise the same error.)
\<close>

theorem timeAgo_timeFromNow_symmetry:
  "timeAgo intl now date locale = timeFromNow intl now date locale \<and>
   (\<forall>t. date = Some t \<and> now < t \<longrightarrow>
      timeAgo intl now date locale =
        (case intl locale of None \<Rightarrow> Inl RangeError
         | Some rtf \<Rightarrow> Inr (timeFromNow_loop rtf ((t - now) div 1000) intervals))) \<and>
   (\<forall>t. date = Some t \<and> t < now \<longrightarrow>
      timeFromNow intl now date locale =
        (case intl locale of None \<Rightarrow> Inl RangeError
         | Some rtf \<Rightarrow> Inr (timeAgo_loop rtf ((now - t) div 1000) intervals)))"
proof (cases date)
  case None
  then show ?thesis by (simp add: timeAgo.simps timeFromNow.simps)
next
  case (Some t)
  consider (future) "now < t" | (past) "t < now" | (same) "t = now" by linarith
  then have agree: "timeAgo intl now (Some t) locale = timeFromNow intl now (Some t) locale"
  proof cases
    case future
    then show ?thesis by (rule timeAgo_future)
  next
    case past
    then show ?thesis by (simp only: timeFromNow_past)
  next
    case same
    then show ?thesis
      by (simp add: timeAgo_direct timeFromNow_direct loops_at_zero split: option.split)
  qed
  have "now < t \<longrightarrow> timeAgo intl now (Some t) locale =
        (case intl locale of None \<Rightarrow> Inl RangeError
         | Some rtf \<Rightarrow> Inr (timeFromNow_loop rtf ((t - now) div 1000) intervals))"
    by (simp add: timeAgo_future timeFromNow_direct)
  moreover have "t < now \<longrightarrow> timeFromNow intl now (Some t) locale =
        (case intl locale of None \<Rightarrow> Inl RangeError
         | Some rtf \<Rightarrow> Inr (timeAgo_loop rtf ((now - t) div 1000) intervals))"
    by (simp add: timeFromNow_past timeAgo_direct)
  ultimately show ?thesis using agree Some by simp
qed

text \<open>The theorem at an instant two hours ahead of \<open>now\<close> and at one a thousand seconds
  behind it.\<close>

theorem timeAgo_timeFromNow_symmetry_witness:
  "(1000000::int) < 7200000 \<and>
   timeAgo plain_format 1000000 (Some 7200000) ''en-US'' = Inr ''1 hour'' \<and>
   timeFromNow plain_format 1000000 (Some 7200000) ''en-US'' = Inr ''1 hour'' \<and>
   (0::int) < 1000000 \<and>
   timeFromNow plain_format 1000000 (Some 0) ''en-US'' = Inr ''-16 minute'' \<and>
   timeAgo plain_format 1000000 (Some 0) ''en-US'' = Inr ''-16 minute''"
proof -
  note future = timeAgo_timeFromNow_symmetry [of plain_format 1000000 "Some 7200000" "''en-US''"]
  note past = timeAgo_timeFromNow_symmetry [of plain_format 1000000 "Some 0" "''en-US''"]
  have a: "timeAgo plain_format 1000000 (Some 7200000) ''en-US'' = Inr ''1 hour''"
    using future [THEN conjunct2, THEN conjunct1, rule_format, of 7200000]
    by (simp add: plain_format_def intervals_def int_str_def dec_digits.simps digit_char_def)
  have a': "timeFromNow plain_format 1000000 (Some 7200000) ''en-US'' = Inr ''1 hour''"
    using a future [THEN conjunct1] by (simp only:)
  have b: "timeFromNow plain_format 1000000 (Some 0) ''en-US'' = Inr ''-16 minute''"
    using past [THEN conjunct2, THEN conjunct2, rule_format, of 0]
    by (simp add: plain_format_def intervals_def int_str_def dec_digits.simps digit_char_def)
  have b': "timeAgo plain_format 1000000 (Some 0) ''en-US'' = Inr ''-16 minute''"
    using b past [THEN conjunct1] by (simp only:)
  show ?thesis using a a' b b' by simp
qed

section \<open>Properties of \<open>startOf\<close> and \<open>endOf\<close>\<close>

text \<open>The calendar at the epoch, at a leap day and at the two ends of the range of
  \<open>Date\<close>: 20 April of the year -271821, a Tuesday, and 13 September 275760, a
  Saturday.\<close>

lemma calendar_samples:
  "civil_from_days 0 = (1970, 0, 1)"
  "civil_from_days 11016 = (2000, 1, 29)"
  "civil_from_days (Day (- maxTime)) = (- 271821, 3, 20)"
  "civil_from_days (Day maxTime) = (275760, 8, 13)"
  "WeekDay (- maxTime) = 2"
  "WeekDay maxTime = 6"
  by code_simp+

lemma Day_shift: "Day (x + k * msPerDay) = Day x + k"
  by (simp add: Day_def msPerDay_def)

lemma MakeDate_parts: "MakeDate (Day x) (TimeWithinDay x) = x"
  by (simp add: MakeDate_def Day_def TimeWithinDay_def)

lemma TimeWithinDay_bounds: "0 \<le> TimeWithinDay x \<and> TimeWithinDay x < msPerDay"
  by (simp add: TimeWithinDay_def msPerDay_def)

lemma Day_MakeDate:
  assumes "0 \<le> tm" "tm < msPerDay"
  shows "Day (MakeDate d tm) = d" "TimeWithinDay (MakeDate d tm) = tm"
  using assms by (simp_all add: Day_def TimeWithinDay_def MakeDate_def msPerDay_def)

lemma WeekDay_bounds: "0 \<le> WeekDay x \<and> WeekDay x < 7"
  by (simp add: WeekDay_def)

lemma MakeDate_shift: "MakeDate (Day x + k) (TimeWithinDay x) = x + k * msPerDay"
proof -
  have "MakeDate (Day x + k) (TimeWithinDay x) = MakeDate (Day x) (TimeWithinDay x) + k * msPerDay"
    by (simp add: MakeDate_def algebra_simps)
  then show ?thesis by (simp only: MakeDate_parts)
qed

lemma setDate_shift: "setDate tz (Some t) (getDate tz t + k) = TimeClip (t + k * msPerDay)"
proof -
  have "Day (t + tz) - (DateFromTime (t + tz) - 1) + (DateFromTime (t + tz) + k) - 1 = Day (t + tz) + k"
    by simp
  then have "setDate tz (Some t) (getDate tz t + k) =
      TimeClip (MakeDate (Day (t + tz) + k) (TimeWithinDay (t + tz)) - tz)"
    by (simp add: setDate_def getDate_def Let_def)
  then show ?thesis by (simp add: MakeDate_shift)
qed

lemma MakeTime_midnight: "MakeTime 0 0 0 0 = 0"
  by (simp add: MakeTime_def)

lemma MakeTime_last: "MakeTime 23 59 59 999 = msPerDay - 1"
  by (simp add: MakeTime_def msPerDay_def)

lemma startOf_week_form:
  assumes "\<bar>t\<bar> \<le> maxTime"
  shows "startOf tz (Some t) ''week'' =
    Inr (TimeClip (MakeDate (Day (t + tz) - (WeekDay (t + tz) + 6) mod 7) 0 - tz))"
proof -
  let ?w = "WeekDay (t + tz)"
  let ?sub = "(?w + 6) mod 7"
  have bk: "(if ?w = 0 then 6 else ?w - 1) = ?sub"
    using WeekDay_bounds [of "t + tz"] by presburger
  have range: "0 \<le> ?sub" by simp
  have "startOf tz (Some t) ''week'' =
      Inr (setHours tz (setDate tz (Some t) (getDate tz t + (- ?sub))) 0 0 0 0)"
    by (simp add: startOf_def Let_def getDay_def bk)
  also have "\<dots> = Inr (setHours tz (TimeClip (t + (- ?sub) * msPerDay)) 0 0 0 0)"
    by (simp only: setDate_shift)
  also have "\<dots> = Inr (TimeClip (MakeDate (Day (t + tz) - ?sub) 0 - tz))"
  proof (cases "maxTime < \<bar>t + (- ?sub) * msPerDay\<bar>")
    case True
    have "MakeDate (Day (t + tz) - ?sub) 0 \<le> MakeDate (Day (t + tz) + (- ?sub)) (TimeWithinDay (t + tz))"
      using TimeWithinDay_bounds [of "t + tz"] by (simp add: MakeDate_def)
    then have "MakeDate (Day (t + tz) - ?sub) 0 - tz \<le> t + (- ?sub) * msPerDay"
      by (simp only: MakeDate_shift)
    moreover have "t + (- ?sub) * msPerDay \<le> t" using range by (simp add: msPerDay_def)
    ultimately have "maxTime < \<bar>MakeDate (Day (t + tz) - ?sub) 0 - tz\<bar>"
      using True assms by linarith
    then show ?thesis using True by (simp add: TimeClip_def setHours_def)
  next
    case False
    have "Day (t + (- ?sub) * msPerDay + tz) = Day (t + tz) - ?sub"
      using Day_shift [of "t + tz" "- ?sub"] by (simp add: algebra_simps)
    then show ?thesis using False by (simp add: TimeClip_def setHours_def MakeTime_midnight)
  qed
  finally show ?thesis .
qed

lemma endOf_week_form:
  assumes "\<bar>t\<bar> \<le> maxTime"
  shows "endOf tz (Some t) ''week'' =
    Inr (TimeClip (MakeDate (Day (t + tz) + (7 - WeekDay (t + tz)) mod 7) (msPerDay - 1) - tz))"
proof -
  let ?w = "WeekDay (t + tz)"
  let ?fwd = "(7 - ?w) mod 7"
  have fwd: "(if ?w = 0 then 0 else 7 - ?w) = ?fwd"
    using WeekDay_bounds [of "t + tz"] by presburger
  have range: "0 \<le> ?fwd" by simp
  have "endOf tz (Some t) ''week'' =
      Inr (setHours tz (setDate tz (Some t) (getDate tz t + ?fwd)) 23 59 59 999)"
    by (simp add: endOf_def Let_def getDay_def fwd)
  also have "\<dots> = Inr (setHours tz (TimeClip (t + ?fwd * msPerDay)) 23 59 59 999)"
    by (simp only: setDate_shift)
  also have "\<dots> = Inr (TimeClip (MakeDate (Day (t + tz) + ?fwd) (msPerDay - 1) - tz))"
  proof (cases "maxTime < \<bar>t + ?fwd * msPerDay\<bar>")
    case True
    have "MakeDate (Day (t + tz) + ?fwd) (TimeWithinDay (t + tz)) \<le> MakeDate (Day (t + tz) + ?fwd) (msPerDay - 1)"
      using TimeWithinDay_bounds [of "t + tz"] by (simp add: MakeDate_def)
    then have "t + ?fwd * msPerDay \<le> MakeDate (Day (t + tz) + ?fwd) (msPerDay - 1) - tz"
      by (simp only: MakeDate_shift)
    moreover have "t \<le> t + ?fwd * msPerDay" using range by (simp add: msPerDay_def)
    ultimately have "maxTime < \<bar>MakeDate (Day (t + tz) + ?fwd) (msPerDay - 1) - tz\<bar>"
      using True assms by linarith
    then show ?thesis using True by (simp add: TimeClip_def setHours_def)
  next
    case False
    have "Day (t + ?fwd * msPerDay + tz) = Day (t + tz) + ?fwd"
      using Day_shift [of "t + tz" ?fwd] by (simp add: algebra_simps)
    then show ?thesis using False by (simp add: TimeClip_def setHours_def MakeTime_last)
  qed
  finally show ?thesis .
qed

lemma monday_midnight:
  "WeekDay (MakeDate (Day x - (WeekDay x + 6) mod 7) 0) = 1 \<and>
   TimeWithinDay (MakeDate (Day x - (WeekDay x + 6) mod 7) 0) = 0"
proof -
  have d: "Day (MakeDate (Day x - (WeekDay x + 6) mod 7) 0) = Day x - (WeekDay x + 6) mod 7"
    by (rule Day_MakeDate) (simp_all add: msPerDay_def)
  have "(Day x - ((Day x + 4) mod 7 + 6) mod 7 + 4) mod 7 = 1" by presburger
  then have "WeekDay (MakeDate (Day x - (WeekDay x + 6) mod 7) 0) = 1"
    unfolding WeekDay_def [of "MakeDate (Day x - (WeekDay x + 6) mod 7) 0"] d
    by (simp add: WeekDay_def)
  moreover have "TimeWithinDay (MakeDate (Day x - (WeekDay x + 6) mod 7) 0) = 0"
    by (rule Day_MakeDate) (simp_all add: msPerDay_def)
  ultimately show ?thesis by simp
qed

lemma sunday_last_ms:
  "WeekDay (MakeDate (Day x + (7 - WeekDay x) mod 7) (msPerDay - 1)) = 0 \<and>
   TimeWithinDay (MakeDate (Day x + (7 - WeekDay x) mod 7) (msPerDay - 1)) = msPerDay - 1"
proof -
  have d: "Day (MakeDate (Day x + (7 - WeekDay x) mod 7) (msPerDay - 1)) = Day x + (7 - WeekDay x) mod 7"
    by (rule Day_MakeDate) (simp_all add: msPerDay_def)
  have "(Day x + (7 - (Day x + 4) mod 7) mod 7 + 4) mod 7 = 0" by presburger
  then have "WeekDay (MakeDate (Day x + (7 - WeekDay x) mod 7) (msPerDay - 1)) = 0"
    unfolding WeekDay_def [of "MakeDate (Day x + (7 - WeekDay x) mod 7) (msPerDay - 1)"] d
    by (simp add: WeekDay_def)
  moreover have "TimeWithinDay (MakeDate (Day x + (7 - WeekDay x) mod 7) (msPerDay - 1)) = msPerDay - 1"
    by (rule Day_MakeDate) (simp_all add: msPerDay_def)
  ultimately show ?thesis by simp
qed

lemma week_start_near:
  assumes "0 \<le> k" "k < 7"
  shows "MakeDate (Day x - k) 0 \<le> x \<and> x < MakeDate (Day x - k) 0 + 7 * msPerDay"
proof -
  have x: "x = MakeDate (Day x) (TimeWithinDay x)" by (simp only: MakeDate_parts)
  have "MakeDate (Day x - k) 0 \<le> MakeDate (Day x) (TimeWithinDay x) \<and>
      MakeDate (Day x) (TimeWithinDay x) < MakeDate (Day x - k) 0 + 7 * msPerDay"
    using assms TimeWithinDay_bounds [of x] by (simp add: MakeDate_def msPerDay_def)
  then show ?thesis using x by simp
qed

lemma week_end_near:
  assumes "0 \<le> k" "k < 7"
  shows "x \<le> MakeDate (Day x + k) (msPerDay - 1) \<and>
         MakeDate (Day x + k) (msPerDay - 1) < x + 7 * msPerDay"
proof -
  have x: "x = MakeDate (Day x) (TimeWithinDay x)" by (simp only: MakeDate_parts)
  have "MakeDate (Day x) (TimeWithinDay x) \<le> MakeDate (Day x + k) (msPerDay - 1) \<and>
      MakeDate (Day x + k) (msPerDay - 1) < MakeDate (Day x) (TimeWithinDay x) + 7 * msPerDay"
    using assms TimeWithinDay_bounds [of x] by (simp add: MakeDate_def msPerDay_def)
  then show ?thesis using x by simp
qed

text \<open>
  Claim C8, as the code has it, in a zone of fixed offset \<open>tz\<close>. For every valid date
  \<open>d\<close>, \<open>startOf(d, 'week')\<close> is the clipped time value of 00:00:00.000 on the Monday at
  or before \<open>d\<close>, and \<open>endOf(d, 'week')\<close> that of 23:59:59.999 on the Sunday at or after
  \<open>d\<close>: whenever the result is a valid date it falls on that Monday, or Sunday, at that
  time of day, less than a week from \<open>d\<close>. A Sunday goes 6 days back for the start and
  0 days on for the end. The result is an invalid date where the boundary lies outside
  the range of \<open>Date\<close>.
\<close>

theorem week_boundaries:
  assumes "\<bar>t\<bar> \<le> maxTime"
  shows "startOf tz (Some t) ''week'' =
           Inr (TimeClip (MakeDate (Day (t + tz) - (WeekDay (t + tz) + 6) mod 7) 0 - tz)) \<and>
         endOf tz (Some t) ''week'' =
           Inr (TimeClip (MakeDate (Day (t + tz) + (7 - WeekDay (t + tz)) mod 7)
                            (MakeTime 23 59 59 999) - tz)) \<and>
         (\<forall>u. startOf tz (Some t) ''week'' = Inr (Some u) \<longrightarrow>
            WeekDay (u + tz) = 1 \<and> TimeWithinDay (u + tz) = MakeTime 0 0 0 0 \<and>
            u \<le> t \<and> t < u + 7 * msPerDay) \<and>
         (\<forall>u. endOf tz (Some t) ''week'' = Inr (Some u) \<longrightarrow>
            WeekDay (u + tz) = 0 \<and> TimeWithinDay (u + tz) = MakeTime 23 59 59 999 \<and>
            t \<le> u \<and> u < t + 7 * msPerDay) \<and>
         (getDay tz t = 0 \<longrightarrow>
            startOf tz (Some t) ''week'' = Inr (TimeClip (MakeDate (Day (t + tz) - 6) 0 - tz)) \<and>
            endOf tz (Some t) ''week'' =
              Inr (TimeClip (MakeDate (Day (t + tz)) (MakeTime 23 59 59 999) - tz)))"
proof -
  let ?monday = "MakeDate (Day (t + tz) - (WeekDay (t + tz) + 6) mod 7) 0"
  let ?sunday = "MakeDate (Day (t + tz) + (7 - WeekDay (t + tz)) mod 7) (msPerDay - 1)"
  note s = startOf_week_form [OF assms, of tz]
  note e = endOf_week_form [OF assms, of tz]
  have start: "WeekDay (u + tz) = 1 \<and> TimeWithinDay (u + tz) = MakeTime 0 0 0 0 \<and>
      u \<le> t \<and> t < u + 7 * msPerDay"
    if "startOf tz (Some t) ''week'' = Inr (Some u)" for u
  proof -
    have "TimeClip (?monday - tz) = Some u" using that s by simp
    then have u: "u + tz = ?monday" by (simp add: TimeClip_def split: if_splits)
    show ?thesis
      using monday_midnight [of "t + tz"] week_start_near [of "(WeekDay (t + tz) + 6) mod 7" "t + tz"]
      unfolding u [symmetric] by (simp add: MakeTime_midnight)
  qed
  have "end": "WeekDay (u + tz) = 0 \<and> TimeWithinDay (u + tz) = MakeTime 23 59 59 999 \<and>
      t \<le> u \<and> u < t + 7 * msPerDay"
    if "endOf tz (Some t) ''week'' = Inr (Some u)" for u
  proof -
    have "TimeClip (?sunday - tz) = Some u" using that e by simp
    then have u: "u + tz = ?sunday" by (simp add: TimeClip_def split: if_splits)
    show ?thesis
      using sunday_last_ms [of "t + tz"] week_end_near [of "(7 - WeekDay (t + tz)) mod 7" "t + tz"]
      unfolding u [symmetric] by (simp add: MakeTime_last)
  qed
  have sunday: "startOf tz (Some t) ''week'' = Inr (TimeClip (MakeDate (Day (t + tz) - 6) 0 - tz)) \<and>
      endOf tz (Some t) ''week'' =
        Inr (TimeClip (MakeDate (Day (t + tz)) (MakeTime 23 59 59 999) - tz))"
    if "getDay tz t = 0"
    using that s e by (simp add: getDay_def MakeTime_last)
  have e': "endOf tz (Some t) ''week'' =
      Inr (TimeClip (MakeDate (Day (t + tz) + (7 - WeekDay (t + tz)) mod 7)
                       (MakeTime 23 59 59 999) - tz))"
    using e by (simp only: MakeTime_last)
  show ?thesis using s e' start "end" sunday by blast
qed


lemmas week_eval =
  TimeClip_def WeekDay_def Day_def TimeWithinDay_def MakeDate_def MakeTime_def msPerDay_def
  maxTime_def

text \<open>The theorem at Sunday 4 January 1970, 00:00 UTC, one hour east of UTC.\<close>

theorem week_boundaries_witness:
  "\<bar>259200000::int\<bar> \<le> maxTime \<and> getDay 3600000 259200000 = 0 \<and>
   startOf 3600000 (Some 259200000) ''week'' = Inr (Some (- 262800000)) \<and>
   WeekDay (- 262800000 + 3600000) = 1 \<and> TimeWithinDay (- 262800000 + 3600000) = 0 \<and>
   endOf 3600000 (Some 259200000) ''week'' = Inr (Some 341999999) \<and>
   WeekDay (341999999 + 3600000) = 0 \<and>
   TimeWithinDay (341999999 + 3600000) = MakeTime 23 59 59 999"
proof -
  have valid: "\<bar>259200000::int\<bar> \<le> maxTime" by (simp add: maxTime_def)
  have sunday: "getDay 3600000 259200000 = 0" by (simp add: getDay_def week_eval)
  note w = week_boundaries [OF valid, of 3600000]
  have a: "startOf 3600000 (Some 259200000) ''week'' = Inr (Some (- 262800000))"
    using w [THEN conjunct1] by (simp add: week_eval)
  have b: "endOf 3600000 (Some 259200000) ''week'' = Inr (Some 341999999)"
    using w [THEN conjunct2, THEN conjunct1] by (simp add: week_eval)
  have c: "WeekDay (- 262800000 + 3600000) = 1 \<and> TimeWithinDay (- 262800000 + 3600000) = 0"
    using w [THEN conjunct2, THEN conjunct2, THEN conjunct1, rule_format, OF a]
    by (simp add: MakeTime_def)
  have d: "WeekDay (341999999 + 3600000) = 0 \<and>
      TimeWithinDay (341999999 + 3600000) = MakeTime 23 59 59 999"
    using w [THEN conjunct2, THEN conjunct2, THEN conjunct2, THEN conjunct1, rule_format, OF b]
    by simp
  show ?thesis using valid sunday a b c d by simp
qed

text \<open>Claim C8 as stated fails at the two ends of the range: the earliest date is a
  Tuesday, whose Monday cannot be represented, and the latest a Saturday.\<close>

theorem week_boundaries_out_of_range:
  "\<bar>- 8640000000000000 :: int\<bar> \<le> maxTime \<and>
   startOf 0 (Some (- 8640000000000000)) ''week'' = Inr None \<and>
   \<bar>8640000000000000 :: int\<bar> \<le> maxTime \<and>
   endOf 0 (Some 8640000000000000) ''week'' = Inr None"
  by code_simp

section \<open>Properties of \<open>isValidCreditCard\<close>\<close>

lemmas card_eval =
  isValidCreditCard_def Let_def is_digit_def parseInt1_def nan_add_def nan_divides_def
  card_patterns_def rx_str_def rx_seq_def rx_any_def

lemma detect_type_find:
  "detect_type ps digits = map_option fst (find (\<lambda>(cardType, pattern). rx_test_prefix pattern digits) ps)"
  by (induction ps) auto

lemma card_visa_valid:
  "isValidCreditCard (JStr ''4111111111111111'') = \<lparr>valid = True, type = Some ''visa''\<rparr>"
  by (simp add: card_eval)

lemma card_visa_invalid:
  "isValidCreditCard (JStr ''4111111111111112'') = \<lparr>valid = False, type = Some ''visa''\<rparr>"
  by (simp add: card_eval)

lemma card_bad_length:
  assumes "length (filter is_digit s) < 13 \<or> 19 < length (filter is_digit s)"
  shows "isValidCreditCard (JStr s) = \<lparr>valid = False, type = None\<rparr>"
  using assms by (auto simp: isValidCreditCard_def Let_def)

lemma card_good_length:
  assumes "13 \<le> length (filter is_digit s)" "length (filter is_digit s) \<le> 19"
  shows "isValidCreditCard (JStr s) =
    \<lparr>valid = nan_divides 10 (luhn_loop (rev (filter is_digit s)) (Some 0) False),
     type = detect_type card_patterns (filter is_digit s)\<rparr>"
  using assms by (auto simp: isValidCreditCard_def Let_def)

lemma card_langs:
  "lang (Lit CHR ''4'') = {''4''}"
  "lang (Seq (Lit CHR ''5'') (Range CHR ''1'' CHR ''5'')) =
     {[CHR ''5'', c] | c. 49 \<le> (of_char c :: nat) \<and> (of_char c :: nat) \<le> 53}"
  "lang (Seq (Lit CHR ''3'') (rx_any ''47'')) = {''34'', ''37''}"
  "lang (Seq (Lit CHR ''6'') (Alt (rx_str ''011'') (Lit CHR ''5''))) = {''6011'', ''65''}"
  "lang (Seq (Lit CHR ''3'') (rx_any ''0689'')) = {''30'', ''36'', ''38'', ''39''}"
  "lang (rx_str ''35'') = {''35''}"
  by (auto simp: rx_any_def rx_str_def rx_seq_def)

lemma digit_1_to_5:
  "(49 \<le> (of_char c :: nat) \<and> (of_char c :: nat) \<le> 53) = (c \<in> set ''12345'')"
proof
  assume "49 \<le> (of_char c :: nat) \<and> (of_char c :: nat) \<le> 53"
  then consider "(of_char c :: nat) = of_char CHR ''1''" | "(of_char c :: nat) = of_char CHR ''2''"
    | "(of_char c :: nat) = of_char CHR ''3''" | "(of_char c :: nat) = of_char CHR ''4''"
    | "(of_char c :: nat) = of_char CHR ''5''"
    by (simp del: of_char_eq_iff) linarith
  then show "c \<in> set ''12345''"
    by cases (simp_all only: of_char_eq_iff, simp_all)
next
  assume "c \<in> set ''12345''"
  then show "49 \<le> (of_char c :: nat) \<and> (of_char c :: nat) \<le> 53" by auto
qed

lemma mastercard_lang:
  "lang (Seq (Lit CHR ''5'') (Range CHR ''1'' CHR ''5'')) = set [''51'', ''52'', ''53'', ''54'', ''55'']"
  by (auto simp: card_langs(2) digit_1_to_5)

lemma card_type_by_prefix:
  "detect_type card_patterns ds =
     (if take 1 ds = ''4'' then Some ''visa''
      else if take 2 ds \<in> set [''51'', ''52'', ''53'', ''54'', ''55''] then Some ''mastercard''
      else if take 2 ds \<in> set [''34'', ''37''] then Some ''amex''
      else if take 4 ds = ''6011'' \<or> take 2 ds = ''65'' then Some ''discover''
      else if take 2 ds \<in> set [''30'', ''36'', ''38'', ''39''] then Some ''diners''
      else if take 2 ds = ''35'' then Some ''jcb''
      else None)"
proof -
  have visa: "rx_test_prefix (Lit CHR ''4'') ds = (take 1 ds = ''4'')"
    using prefix_of_finite [of "Lit CHR ''4''" "[''4'']" ds] by simp
  have mc: "rx_test_prefix (Seq (Lit CHR ''5'') (Range CHR ''1'' CHR ''5'')) ds =
      (take 2 ds \<in> set [''51'', ''52'', ''53'', ''54'', ''55''])"
    using prefix_of_finite [OF mastercard_lang, of ds] by (simp add: eval_nat_numeral)
  have amex: "rx_test_prefix (Seq (Lit CHR ''3'') (rx_any ''47'')) ds =
      (take 2 ds \<in> set [''34'', ''37''])"
    using prefix_of_finite [of _ "[''34'', ''37'']" ds] card_langs(3) by (simp add: eval_nat_numeral)
  have disc: "rx_test_prefix (Seq (Lit CHR ''6'') (Alt (rx_str ''011'') (Lit CHR ''5''))) ds =
      (take 4 ds = ''6011'' \<or> take 2 ds = ''65'')"
    using prefix_of_finite [of _ "[''6011'', ''65'']" ds] card_langs(4) by (simp add: eval_nat_numeral)
  have diners: "rx_test_prefix (Seq (Lit CHR ''3'') (rx_any ''0689'')) ds =
      (take 2 ds \<in> set [''30'', ''36'', ''38'', ''39''])"
    using prefix_of_finite [of _ "[''30'', ''36'', ''38'', ''39'']" ds] card_langs(5) by (simp add: eval_nat_numeral)
  have jcb: "rx_test_prefix (rx_str ''35'') ds = (take 2 ds = ''35'')"
    using prefix_of_finite [of _ "[''35'']" ds] card_langs(6) by (simp add: eval_nat_numeral)
  show ?thesis
    unfolding card_patterns_def detect_type.simps visa mc amex disc diners jcb by simp
qed

text \<open>
  Claim C5. \<open>isValidCreditCard("4111111111111111")\<close> is \<open>{valid: true, type: "visa"}\<close>
  and \<open>isValidCreditCard("4111111111111112")\<close> is \<open>{valid: false, type: "visa"}\<close>; an
  input whose digits, the other characters stripped, number fewer than 13 or more than 19
  gives \<open>{valid: false, type: null}\<close>; and with 13 to 19 digits the type reported is
  that of the first pattern matching the digits, in the order visa, mastercard, amex,
  discover, diners, jcb, whatever the Luhn sum decides for \<open>valid\<close>
  (\<open>card_type_by_prefix\<close> spells the first match out on the leading digits).
\<close>

theorem isValidCreditCard_contract:
  "isValidCreditCard (JStr ''4111111111111111'') = \<lparr>valid = True, type = Some ''visa''\<rparr> \<and>
   isValidCreditCard (JStr ''4111111111111112'') = \<lparr>valid = False, type = Some ''visa''\<rparr> \<and>
   (length (filter is_digit s) < 13 \<or> 19 < length (filter is_digit s) \<longrightarrow>
      isValidCreditCard (JStr s) = \<lparr>valid = False, type = None\<rparr>) \<and>
   (13 \<le> length (filter is_digit s) \<and> length (filter is_digit s) \<le> 19 \<longrightarrow>
      type (isValidCreditCard (JStr s)) =
        map_option fst
          (find (\<lambda>(cardType, pattern). rx_test_prefix pattern (filter is_digit s)) card_patterns) \<and>
      valid (isValidCreditCard (JStr s)) =
        nan_divides 10 (luhn_loop (rev (filter is_digit s)) (Some 0) False)) \<and>
   map fst card_patterns = [''visa'', ''mastercard'', ''amex'', ''discover'', ''diners'', ''jcb'']"
proof -
  have order: "map fst card_patterns =
      [''visa'', ''mastercard'', ''amex'', ''discover'', ''diners'', ''jcb'']"
    by (simp add: card_patterns_def)
  show ?thesis
    using card_visa_valid card_visa_invalid card_bad_length [of s] card_good_length [of s] order
    by (simp add: detect_type_find)
qed

text \<open>The theorem at an input of eight digits and at a sixteen-digit number that
  fails the Luhn sum and is still classified.\<close>

theorem isValidCreditCard_contract_witness:
  "length (filter is_digit ''4111-1111'') < 13 \<and>
   isValidCreditCard (JStr ''4111-1111'') = \<lparr>valid = False, type = None\<rparr> \<and>
   13 \<le> length (filter is_digit ''5500 0000 0000 0005'') \<and>
   length (filter is_digit ''5500 0000 0000 0005'') \<le> 19 \<and>
   type (isValidCreditCard (JStr ''5500 0000 0000 0005'')) = Some ''mastercard'' \<and>
   valid (isValidCreditCard (JStr ''5500 0000 0000 0005'')) = False"
proof -
  have short: "length (filter is_digit ''4111-1111'') < 13" by (simp add: is_digit_def)
  have long: "13 \<le> length (filter is_digit ''5500 0000 0000 0005'') \<and>
      length (filter is_digit ''5500 0000 0000 0005'') \<le> 19" by (simp add: is_digit_def)
  have a: "isValidCreditCard (JStr ''4111-1111'') = \<lparr>valid = False, type = None\<rparr>"
    using isValidCreditCard_contract [of "''4111-1111''"] short by blast
  have b: "type (isValidCreditCard (JStr ''5500 0000 0000 0005'')) =
        map_option fst
          (find (\<lambda>(cardType, pattern). rx_test_prefix pattern (filter is_digit ''5500 0000 0000 0005'')) card_patterns) \<and>
      valid (isValidCreditCard (JStr ''5500 0000 0000 0005'')) =
        nan_divides 10 (luhn_loop (rev (filter is_digit ''5500 0000 0000 0005'')) (Some 0) False)"
    using isValidCreditCard_contract [of "''5500 0000 0000 0005''"] long by blast
  have c: "map_option fst
          (find (\<lambda>(cardType, pattern). rx_test_prefix pattern (filter is_digit ''5500 0000 0000 0005'')) card_patterns) = Some ''mastercard''"
    by (simp add: card_eval)
  have d: "nan_divides 10 (luhn_loop (rev (filter is_digit ''5500 0000 0000 0005'')) (Some 0) False) = False"
    by (simp add: card_eval)
  show ?thesis using short long a b c d by simp
qed

section \<open>Properties of \<open>isValidISBN\<close>\<close>

lemma digit_or_X_kept:
  "is_digit c \<or> c = CHR ''X'' \<Longrightarrow> c \<noteq> CHR ''-'' \<and> \<not> is_space c"
  by (auto simp: is_digit_def is_space_def)

lemma isbn10_sum_cong:
  assumes "\<forall>i<9. a ! i = b ! i"
  shows "isbn10_sum a = isbn10_sum b"
  unfolding isbn10_sum_def using assms by (intro fold_cong) auto

lemma isbn10_on_cleaned:
  assumes "length s = 10" "\<forall>x\<in>set s. x \<noteq> CHR ''-'' \<and> \<not> is_space x"
  shows "valid (isValidISBN (JStr s)) =
    nan_divides 11 (nan_add (isbn10_sum s)
      (if s ! 9 = CHR ''X'' then Some 10 else parseInt1 (s ! 9)))"
proof -
  have "filter (\<lambda>c. c \<noteq> CHR ''-'' \<and> \<not> is_space c) s = s"
    using assms(2) by (simp add: filter_id_conv)
  then show ?thesis using assms(1) by (simp add: isValidISBN_def Let_def)
qed

lemma check_value_bound:
  assumes "(if c = CHR ''X'' then Some 10 else parseInt1 c) = Some k"
  shows "k \<le> 10"
  using assms by (auto simp: parseInt1_def is_digit_def split: if_splits)

lemma check_value_inj:
  assumes "(if c = CHR ''X'' then Some 10 else parseInt1 c) = Some k"
    and "(if d = CHR ''X'' then Some 10 else parseInt1 d) = Some k"
  shows "c = d"
proof (cases "c = CHR ''X'' \<or> d = CHR ''X''")
  case True
  then show ?thesis
    using assms by (auto simp: parseInt1_def is_digit_def split: if_splits)
next
  case False
  then have c: "48 \<le> (of_char c :: nat)" "(of_char c :: nat) - 48 = k"
    and d: "48 \<le> (of_char d :: nat)" "(of_char d :: nat) - 48 = k"
    using assms by (auto simp: parseInt1_def is_digit_def split: if_splits)
  have "(of_char c :: nat) = of_char d" using c d by linarith
  then show ?thesis by (simp only: of_char_eq_iff)
qed

lemma small_multiple_zero:
  assumes "11 dvd (m::nat)" "m \<le> 10"
  shows "m = 0"
  using assms by (auto elim!: dvdE)

lemma mod11_unique:
  assumes "(n + k) mod 11 = 0" "(n + k') mod 11 = 0" "k \<le> 10" "k' \<le> 10"
  shows "k = (k'::nat)"
proof -
  have d: "11 dvd n + k" "11 dvd n + k'"
    using assms(1,2) by (simp_all add: mod_eq_0_iff_dvd)
  have "11 dvd (n + k') - (n + k)" using d(2) d(1) by (rule dvd_diff_nat)
  then have a: "11 dvd k' - k" by simp
  have "11 dvd (n + k) - (n + k')" using d(1) d(2) by (rule dvd_diff_nat)
  then have b: "11 dvd k - k'" by simp
  have "k' - k = 0" using a assms(4) by (intro small_multiple_zero) simp_all
  moreover have "k - k' = 0" using b assms(3) by (intro small_multiple_zero) simp_all
  ultimately show ?thesis by simp
qed
text \<open>
  Claim C6. For every string of ten characters, nine digits and then a digit or \<open>X\<close>,
  that \<open>isValidISBN\<close> reports valid, replacing only the check character (position 9) by
  any other character gives a string that \<open>isValidISBN\<close> reports invalid.
\<close>

theorem isbn10_check_digit_detects:
  assumes len: "length s = 10"
    and digits: "\<forall>i<9. is_digit (s ! i)"
    and last: "is_digit (s ! 9) \<or> s ! 9 = CHR ''X''"
    and ok: "valid (isValidISBN (JStr s))"
    and changed: "c \<noteq> s ! 9"
  shows "\<not> valid (isValidISBN (JStr (s[9 := c])))"
proof
  let ?keep = "\<lambda>c. c \<noteq> CHR ''-'' \<and> \<not> is_space c"
  let ?check = "\<lambda>c. if c = CHR ''X'' then Some 10 else parseInt1 c"
  let ?s' = "s[9 := c]"
  assume ok': "valid (isValidISBN (JStr ?s'))"
  have nth_kept: "?keep (s ! i)" if "i < 10" for i
  proof (cases "i < 9")
    case True
    then show ?thesis using digits digit_or_X_kept by blast
  next
    case False
    then have "i = 9" using that by simp
    then show ?thesis using last digit_or_X_kept by blast
  qed
  have kept: "\<forall>x\<in>set s. ?keep x"
    using nth_kept len by (metis in_set_conv_nth)
  have v: "nan_divides 11 (nan_add (isbn10_sum s) (?check (s ! 9)))"
    using ok isbn10_on_cleaned [OF len kept] by simp
  have split: "?s' = take 9 s @ [c]"
    using len by (simp add: upd_conv_take_nth_drop)
  have front: "\<forall>x\<in>set (take 9 s). ?keep x"
    using kept by (meson in_set_takeD)
  have keep_c: "?keep c"
  proof (rule ccontr)
    assume "\<not> ?keep c"
    then have "filter ?keep ?s' = take 9 s"
      using front by (simp add: split filter_id_conv)
    then have "length (filter ?keep ?s') = 9" using len by simp
    then have "\<not> valid (isValidISBN (JStr ?s'))"
      by (simp add: isValidISBN_def Let_def)
    then show False using ok' by simp
  qed
  have kept': "\<forall>x\<in>set ?s'. ?keep x"
    using front keep_c by (simp add: split)
  have len': "length ?s' = 10" using len by simp
  have same: "isbn10_sum ?s' = isbn10_sum s"
    by (rule isbn10_sum_cong) simp
  have nth9: "?s' ! 9 = c" using len by simp
  have v': "nan_divides 11 (nan_add (isbn10_sum s) (?check c))"
    using ok' isbn10_on_cleaned [OF len' kept'] by (simp add: same nth9 cong: if_cong)
  obtain n k where n: "isbn10_sum s = Some n" and k: "?check (s ! 9) = Some k"
    and nk: "(n + k) mod 11 = 0"
    using v by (auto simp: nan_divides_def nan_add_def split: option.splits)
  obtain k' where k': "?check c = Some k'" and nk': "(n + k') mod 11 = 0"
    using v' n by (auto simp: nan_divides_def nan_add_def split: option.splits)
  have "k = k'"
    using nk nk' check_value_bound [OF k] check_value_bound [OF k'] by (rule mod11_unique)
  then have "c = s ! 9" using k k' check_value_inj by blast
  then show False using changed by simp
qed

text \<open>The theorem at the valid ISBN-10 \<open>0306406152\<close>, its check digit replaced by
  \<open>7\<close> and by \<open>X\<close>.\<close>

theorem isbn10_check_digit_detects_witness:
  "length ''0306406152'' = 10 \<and> list_all is_digit (take 9 ''0306406152'') \<and>
   is_digit (''0306406152'' ! 9) \<and> valid (isValidISBN (JStr ''0306406152'')) \<and>
   CHR ''7'' \<noteq> ''0306406152'' ! 9 \<and> \<not> valid (isValidISBN (JStr ''0306406157'')) \<and>
   \<not> valid (isValidISBN (JStr ''030640615X''))"
proof -
  have len: "length ''0306406152'' = 10" by simp
  have digits: "\<forall>i<9. is_digit (''0306406152'' ! i)"
    by (simp add: is_digit_def All_less_Suc numeral_eq_Suc)
  have last: "is_digit (''0306406152'' ! 9) \<or> ''0306406152'' ! 9 = CHR ''X''"
    by (simp add: is_digit_def)
  have ok: "valid (isValidISBN (JStr ''0306406152''))"
    by (simp add: isValidISBN_def Let_def is_space_def isbn10_sum_def upt_rec parseInt1_def
        is_digit_def nan_add_def nan_mul_def nan_divides_def)
  have seven: "CHR ''7'' \<noteq> ''0306406152'' ! 9" by simp
  have ex: "CHR ''X'' \<noteq> ''0306406152'' ! 9" by simp
  have a: "\<not> valid (isValidISBN (JStr ''0306406157''))"
    using isbn10_check_digit_detects [OF len digits last ok seven] by simp
  have b: "\<not> valid (isValidISBN (JStr ''030640615X''))"
    using isbn10_check_digit_detects [OF len digits last ok ex] by simp
  show ?thesis using len digits last ok seven a b by (simp add: is_digit_def)
qed

section \<open>Properties of \<open>isValidPhone\<close> and \<open>isValidPostalCode\<close>\<close>

lemma lang_rx_digit: "lang rx_digit = {[c] | c. is_digit c}"
  by (simp add: rx_digit_def is_digit_def)

lemma lang_rx_times:
  assumes "lang r = {[c] | c. P c}"
  shows "lang (rx_times n r) = {s. length s = n \<and> (\<forall>c\<in>set s. P c)}"
proof (induction n)
  case 0
  show ?case by (auto simp: rx_times.simps [of 0])
next
  case (Suc n)
  have "lang (rx_times (Suc n) r) = {u @ v | u v. u \<in> lang r \<and> v \<in> lang (rx_times n r)}"
    by (simp add: rx_times.simps [of "Suc n"])
  also have "\<dots> = {s. length s = Suc n \<and> (\<forall>c\<in>set s. P c)}"
  proof (intro equalityI subsetI)
    fix s assume "s \<in> {u @ v | u v. u \<in> lang r \<and> v \<in> lang (rx_times n r)}"
    then show "s \<in> {s. length s = Suc n \<and> (\<forall>c\<in>set s. P c)}"
      using assms Suc.IH by auto
  next
    fix s assume "s \<in> {s. length s = Suc n \<and> (\<forall>c\<in>set s. P c)}"
    then obtain c v where "s = [c] @ v" "P c" "length v = n" "\<forall>c\<in>set v. P c"
      by (cases s) auto
    then show "s \<in> {u @ v | u v. u \<in> lang r \<and> v \<in> lang (rx_times n r)}"
      using assms Suc.IH by blast
  qed
  finally show ?case .
qed

lemma lang_rx_upto:
  assumes "lang r = {[c] | c. P c}"
  shows "lang (rx_upto n r) = {s. length s \<le> n \<and> (\<forall>c\<in>set s. P c)}"
proof (induction n)
  case 0
  show ?case by (auto simp: rx_upto.simps [of 0])
next
  case (Suc n)
  have "lang (rx_upto (Suc n) r) =
      {u @ v | u v. u \<in> lang r \<and> v \<in> lang (rx_upto n r)} \<union> {[]}"
    by (simp add: rx_upto.simps [of "Suc n"] rx_opt_def)
  also have "\<dots> = {s. length s \<le> Suc n \<and> (\<forall>c\<in>set s. P c)}"
  proof (intro equalityI subsetI)
    fix s assume "s \<in> {u @ v | u v. u \<in> lang r \<and> v \<in> lang (rx_upto n r)} \<union> {[]}"
    then show "s \<in> {s. length s \<le> Suc n \<and> (\<forall>c\<in>set s. P c)}"
      using assms Suc.IH by auto
  next
    fix s assume s: "s \<in> {s. length s \<le> Suc n \<and> (\<forall>c\<in>set s. P c)}"
    show "s \<in> {u @ v | u v. u \<in> lang r \<and> v \<in> lang (rx_upto n r)} \<union> {[]}"
    proof (cases s)
      case Nil
      then show ?thesis by simp
    next
      case (Cons c v)
      then have "s = [c] @ v" "P c" "length v \<le> n" "\<forall>c\<in>set v. P c" using s by auto
      then show ?thesis using assms Suc.IH by blast
    qed
  qed
  finally show ?case .
qed

lemma lang_rx_between:
  assumes "lang r = {[c] | c. P c}" "m \<le> n"
  shows "lang (rx_between m n r) = {s. m \<le> length s \<and> length s \<le> n \<and> (\<forall>c\<in>set s. P c)}"
proof (intro equalityI subsetI)
  fix s assume "s \<in> lang (rx_between m n r)"
  then show "s \<in> {s. m \<le> length s \<and> length s \<le> n \<and> (\<forall>c\<in>set s. P c)}"
    using assms(2) by (auto simp: rx_between_def lang_rx_times [OF assms(1)] lang_rx_upto [OF assms(1)])
next
  fix s assume s: "s \<in> {s. m \<le> length s \<and> length s \<le> n \<and> (\<forall>c\<in>set s. P c)}"
  have "take m s \<in> lang (rx_times m r)"
    using s by (auto simp: lang_rx_times [OF assms(1)] dest: in_set_takeD)
  moreover have "drop m s \<in> lang (rx_upto (n - m) r)"
    using s by (auto simp: lang_rx_upto [OF assms(1)] dest: in_set_dropD)
  ultimately have "take m s @ drop m s \<in> lang (rx_between m n r)"
    unfolding rx_between_def lang.simps by blast
  then show "s \<in> lang (rx_between m n r)" by simp
qed

lemma generic_phone_test:
  "rx_test generic_phone (filter is_digit p) =
     (7 \<le> length (filter is_digit p) \<and> length (filter is_digit p) \<le> 15)"
  by (simp add: rx_test_lang generic_phone_def lang_rx_between [OF lang_rx_digit])

text \<open>
  Claim C9, as the code has it. Called with a country code that its pattern table does
  not have, \<open>isValidPostalCode\<close> returns false for every input string. \<open>isValidPhone\<close>
  does not: it falls back on the generic pattern and returns true exactly when the input
  has 7 to 15 digits. Neither raises: for a string and a country code the model has no
  error to return.
\<close>

theorem unknown_country_code:
  "(map_of postal_patterns (js_toUpperCase c) = None \<longrightarrow>
      isValidPostalCode (JStr p) (Some c) = False) \<and>
   (map_of phone_patterns (js_toUpperCase c) = None \<longrightarrow>
      isValidPhone (JStr p) (Some c) =
        (7 \<le> length (filter is_digit p) \<and> length (filter is_digit p) \<le> 15))"
  by (simp add: isValidPostalCode_def isValidPhone_def Let_def generic_phone_test)

lemmas country_eval =
  js_toUpperCase_def upper_char_def postal_patterns_def phone_patterns_def

text \<open>The theorem at the unknown code \<open>zz\<close>.\<close>

theorem unknown_country_code_witness:
  "map_of postal_patterns (js_toUpperCase ''zz'') = None \<and>
   isValidPostalCode (JStr ''12345'') (Some ''zz'') = False \<and>
   map_of phone_patterns (js_toUpperCase ''zz'') = None \<and>
   isValidPhone (JStr ''555-0100'') (Some ''zz'') = True \<and>
   isValidPhone (JStr ''911'') (Some ''zz'') = False"
proof -
  have a: "map_of postal_patterns (js_toUpperCase ''zz'') = None" by (simp add: country_eval)
  have b: "map_of phone_patterns (js_toUpperCase ''zz'') = None" by (simp add: country_eval)
  have c: "isValidPostalCode (JStr ''12345'') (Some ''zz'') = False"
    using unknown_country_code [of "''zz''" "''12345''"] a by simp
  have d: "isValidPhone (JStr ''555-0100'') (Some ''zz'') = True"
    using unknown_country_code [of "''zz''" "''555-0100''"] b by (simp add: is_digit_def)
  have e: "isValidPhone (JStr ''911'') (Some ''zz'') = False"
    using unknown_country_code [of "''zz''" "''911''"] b by (simp add: is_digit_def)
  show ?thesis using a b c d e by simp
qed

text \<open>Claim C9 as stated fails for \<open>isValidPhone\<close>: with the unknown code \<open>ZZ\<close> a
  string of seven digits is accepted.\<close>

theorem isValidPhone_unknown_country_accepts:
  "map_of phone_patterns (js_toUpperCase ''ZZ'') = None \<and>
   isValidPhone (JStr ''1234567'') (Some ''ZZ'') = True"
  by (simp add: country_eval isValidPhone_def Let_def is_digit_def generic_phone_def
      rx_between_def rx_digit_def rx_opt_def rx_times.simps rx_upto.simps)

end
